theory Spec2Isabelle
  imports Main "HOL-Library.Word" "HOL-Library.Sublist"
begin

section \<open>The setup wizard of \<^verbatim>\<open>scripts/setup.js\<close>\<close>

text \<open>
  The script is one \<^verbatim>\<open>main\<close> function that walks through ten numbered blocks. Each block
  prints a header, does its work (a look at the working directory, an external command run
  through \<^verbatim>\<open>execa\<close>, or a prompt that selects commands), prints an encouragement,
  increments \<^verbatim>\<open>step\<close> and moves the progress bar. The model keeps
  \<^item> the working directory as a tree of regular files and directories (symbolic links are
    outside the model),
  \<^item> \<^verbatim>\<open>process.env\<close> as an association list,
  \<^item> the local variable \<^verbatim>\<open>step\<close>,
  \<^item> a log of what the run did on the terminal and which commands it spawned.
  What the script cannot decide itself is a parameter: the behaviour of every spawned command,
  the answers to the three prompts, and the \<^verbatim>\<open>dotenv\<close> loader.
  Beeps, blank lines and the timing of the typing animation are left out.
\<close>

subsection \<open>Strings\<close>

text \<open>A JavaScript string is a sequence of UTF-16 code units.\<close>

type_synonym jsstring = "16 word list"

definition lit :: "string \<Rightarrow> jsstring" where
  "lit s = map (\<lambda>c. of_nat (of_char c)) s"

subsection \<open>The working directory\<close>

type_synonym path = "string list"

datatype node = File jsstring | Dir "(string \<times> node) list"

datatype error = ENOENT | ENOTDIR | EISDIR | EPERM | ENOTEMPTY | EBUSY

fun lookup :: "node \<Rightarrow> path \<Rightarrow> node option" where
  "lookup n [] = Some n"
| "lookup (File c) (x # xs) = None"
| "lookup (Dir es) (x # xs) =
     (case map_of es x of None \<Rightarrow> None | Some m \<Rightarrow> lookup m xs)"

fun remove :: "node \<Rightarrow> path \<Rightarrow> node" where
  "remove n [] = n"
| "remove (File c) (x # xs) = File c"
| "remove (Dir es) [x] = Dir (filter (\<lambda>e. fst e \<noteq> x) es)"
| "remove (Dir es) (x # y # ys) =
     Dir (map (\<lambda>e. if fst e = x then (fst e, remove (snd e) (y # ys)) else e) es)"

fun put :: "string \<Rightarrow> node \<Rightarrow> (string \<times> node) list \<Rightarrow> (string \<times> node) list" where
  "put k v [] = [(k, v)]"
| "put k v (e # es) = (if fst e = k then (k, v) # es else e # put k v es)"

fun write_file :: "node \<Rightarrow> path \<Rightarrow> jsstring \<Rightarrow> error + node" where
  "write_file n [] c = Inl EISDIR"
| "write_file (File d) (x # xs) c = Inl ENOTDIR"
| "write_file (Dir es) [x] c =
     (case map_of es x of
        Some (Dir ds) \<Rightarrow> Inl EISDIR
      | _ \<Rightarrow> Inr (Dir (put x (File c) es)))"
| "write_file (Dir es) (x # y # ys) c =
     (case map_of es x of
        None \<Rightarrow> Inl ENOENT
      | Some m \<Rightarrow>
          (case write_file m (y # ys) c of
             Inl e \<Rightarrow> Inl e
           | Inr m' \<Rightarrow> Inr (Dir (put x m' es))))"

text \<open>The calls of Node's \<^verbatim>\<open>fs\<close> module that the script makes.\<close>

definition existsSync :: "node \<Rightarrow> path \<Rightarrow> bool" where
  "existsSync root p = (lookup root p \<noteq> None)"

text \<open>\<^verbatim>\<open>fs.lstatSync(p).isDirectory()\<close>\<close>

definition isDirectory :: "node \<Rightarrow> path \<Rightarrow> error + bool" where
  "isDirectory root p =
     (case lookup root p of
        None \<Rightarrow> Inl ENOENT
      | Some (File c) \<Rightarrow> Inr False
      | Some (Dir es) \<Rightarrow> Inr True)"

definition readdirSync :: "node \<Rightarrow> path \<Rightarrow> error + string list" where
  "readdirSync root p =
     (case lookup root p of
        None \<Rightarrow> Inl ENOENT
      | Some (File c) \<Rightarrow> Inl ENOTDIR
      | Some (Dir es) \<Rightarrow> Inr (map fst es))"

definition unlinkSync :: "node \<Rightarrow> path \<Rightarrow> error + node" where
  "unlinkSync root p =
     (case lookup root p of
        None \<Rightarrow> Inl ENOENT
      | Some (Dir es) \<Rightarrow> Inl EPERM
      | Some (File c) \<Rightarrow> Inr (remove root p))"

definition rmdirSync :: "node \<Rightarrow> path \<Rightarrow> error + node" where
  "rmdirSync root p =
     (case lookup root p of
        None \<Rightarrow> Inl ENOENT
      | Some (File c) \<Rightarrow> Inl ENOTDIR
      | Some (Dir es) \<Rightarrow>
          if p = [] then Inl EBUSY
          else if es = [] then Inr (remove root p)
          else Inl ENOTEMPTY)"

definition readFileSync :: "node \<Rightarrow> path \<Rightarrow> error + jsstring" where
  "readFileSync root p =
     (case lookup root p of
        None \<Rightarrow> Inl ENOENT
      | Some (Dir es) \<Rightarrow> Inl EISDIR
      | Some (File c) \<Rightarrow> Inr c)"

definition copyFileSync :: "node \<Rightarrow> path \<Rightarrow> path \<Rightarrow> error + node" where
  "copyFileSync root src dest =
     (case lookup root src of
        None \<Rightarrow> Inl ENOENT
      | Some (Dir es) \<Rightarrow> Inl EISDIR
      | Some (File c) \<Rightarrow> write_file root dest c)"

subsection \<open>File and command utilities\<close>

text \<open>
  \<^verbatim>\<open>deleteDirectory\<close> (lines 53 to 61) calls itself for every entry that
  \<^verbatim>\<open>readdirSync\<close> listed, each call working on the tree the previous one left.
\<close>

function deleteDirectory :: "node \<Rightarrow> path \<Rightarrow> error + node"
  and deleteDirectory_items :: "node \<Rightarrow> path \<Rightarrow> string list \<Rightarrow> error + node" where
  "deleteDirectory root dir =
     (if \<not> existsSync root dir then Inr root
      else case isDirectory root dir of
        Inl e \<Rightarrow> Inl e
      | Inr False \<Rightarrow> unlinkSync root dir
      | Inr True \<Rightarrow>
          (case readdirSync root dir of
             Inl e \<Rightarrow> Inl e
           | Inr items \<Rightarrow>
               (case deleteDirectory_items root dir items of
                  Inl e \<Rightarrow> Inl e
                | Inr root' \<Rightarrow> rmdirSync root' dir)))"
| "deleteDirectory_items root dir [] = Inr root"
| "deleteDirectory_items root dir (item # items) =
     (if item = ''.'' \<or> item = ''..'' then deleteDirectory_items root dir items
      else case deleteDirectory root (dir @ [item]) of
        Inl e \<Rightarrow> Inl e
      | Inr root' \<Rightarrow> deleteDirectory_items root' dir items)"
  by pat_completeness auto

text \<open>The measure of the termination proof: the number of directories in a tree.\<close>

fun dirs :: "node \<Rightarrow> nat" where
  "dirs (File c) = 0"
| "dirs (Dir es) = Suc (sum_list (map (\<lambda>e. dirs (snd e)) es))"

definition is_dir :: "node \<Rightarrow> path \<Rightarrow> bool" where
  "is_dir root p = (case lookup root p of Some (Dir es) \<Rightarrow> True | _ \<Rightarrow> False)"

text \<open>\<^verbatim>\<open>deleteDirectoryContents\<close> (lines 40 to 51) and its loop.\<close>

fun deleteDirectoryContents_items :: "node \<Rightarrow> path \<Rightarrow> string list \<Rightarrow> error + node" where
  "deleteDirectoryContents_items root dir [] = Inr root"
| "deleteDirectoryContents_items root dir (item # items) =
     (if item = ''.'' \<or> item = ''..'' then deleteDirectoryContents_items root dir items
      else case isDirectory root (dir @ [item]) of
        Inl e \<Rightarrow> Inl e
      | Inr True \<Rightarrow>
          (case deleteDirectory root (dir @ [item]) of
             Inl e \<Rightarrow> Inl e
           | Inr root' \<Rightarrow> deleteDirectoryContents_items root' dir items)
      | Inr False \<Rightarrow>
          (case unlinkSync root (dir @ [item]) of
             Inl e \<Rightarrow> Inl e
           | Inr root' \<Rightarrow> deleteDirectoryContents_items root' dir items))"

definition deleteDirectoryContents :: "node \<Rightarrow> path \<Rightarrow> error + node" where
  "deleteDirectoryContents root dir =
     (if \<not> existsSync root dir \<or> isDirectory root dir \<noteq> Inr True then Inr root
      else case readdirSync root dir of
        Inl e \<Rightarrow> Inl e
      | Inr items \<Rightarrow> deleteDirectoryContents_items root dir items)"

subsection \<open>The key pattern\<close>

text \<open>
  Line 194 tests the content of \<^verbatim>\<open>.env\<close> against \<^verbatim>\<open>/APP_KEY=.+/\<close>. The
  pattern has no anchor and no flag: it matches when the literal occurs somewhere and the code
  unit after it is matched by the dot, which accepts everything but the four line terminators
  of ECMAScript (LF, CR, U+2028, U+2029).
\<close>

definition is_line_terminator :: "16 word \<Rightarrow> bool" where
  "is_line_terminator c = (c = 0x0A \<or> c = 0x0D \<or> c = 0x2028 \<or> c = 0x2029)"

fun strip_prefix :: "'a list \<Rightarrow> 'a list \<Rightarrow> 'a list option" where
  "strip_prefix [] ys = Some ys"
| "strip_prefix (x # xs) [] = None"
| "strip_prefix (x # xs) (y # ys) = (if x = y then strip_prefix xs ys else None)"

definition app_key_match_at :: "jsstring \<Rightarrow> bool" where
  "app_key_match_at s =
     (case strip_prefix (lit ''APP_KEY='') s of
        Some (c # rest) \<Rightarrow> \<not> is_line_terminator c
      | _ \<Rightarrow> False)"

fun app_key_test :: "jsstring \<Rightarrow> bool" where
  "app_key_test [] = False"
| "app_key_test (c # cs) = (app_key_match_at (c # cs) \<or> app_key_test cs)"

subsection \<open>State, log and outcomes\<close>

type_synonym command = "string \<times> string list"

type_synonym penv = "(jsstring \<times> jsstring) list"

text \<open>
  The texts that \<^verbatim>\<open>main\<close> and \<^verbatim>\<open>checkEnvironment\<close> print, in the order of the
  source. Most of them hold characters outside ASCII, so each is a constant here; the comment
  gives the readable part of the source text.
\<close>

datatype msg =
    Title                 \<comment> \<open>VVECON Project Setup Wizard\<close>
  | Welcome               \<comment> \<open>Welcome to VVECON Project Setup Wizard!\<close>
  | LockDeleted           \<comment> \<open>composer.lock deleted\<close>
  | NoLock                \<comment> \<open>No composer.lock found\<close>
  | EnvCreated            \<comment> \<open>.env created\<close>
  | EnvReminder           \<comment> \<open>Remember to update your .env settings!\<close>
  | KeyEmpty              \<comment> \<open>APP_KEY is empty or invalid, generating...\<close>
  | EnvValid              \<comment> \<open>.env exists and APP_KEY is valid\<close>
  | ProdDetected          \<comment> \<open>PRODUCTION ENVIRONMENT DETECTED!\<close>
  | ProdDevOnly           \<comment> \<open>This setup script is designed for development environments only.\<close>
  | ProdDataLoss          \<comment> \<open>Running this script in production may cause data loss ...\<close>
  | ProdHint              \<comment> \<open>If you are sure you want to continue, set APP_ENV=local\<close>
  | EnvCheckPassed jsstring  \<comment> \<open>Environment check passed (currentEnv)\<close>
  | StorageRemoved        \<comment> \<open>Removed public/storage\<close>
  | StorageNotFound       \<comment> \<open>public/storage not found\<close>
  | SkipMigration         \<comment> \<open>Skipping database migration\<close>
  | SkipBuild             \<comment> \<open>Skipping frontend build\<close>
  | SkipProd              \<comment> \<open>Skipping production optimizations\<close>
  | Completed             \<comment> \<open>VVECON setup completed successfully!\<close>
  | Rule                  \<comment> \<open>a line of fifty dashes\<close>
  | NextSteps             \<comment> \<open>Next steps:\<close>
  | HintDev               \<comment> \<open>Run "composer run dev" to start the development server\<close>
  | HintVisit             \<comment> \<open>Visit your app in the browser\<close>
  | HintReadme            \<comment> \<open>Explore README documentation\<close>
  | HappyCoding           \<comment> \<open>Happy coding with VVECON!\<close>

text \<open>A step label is the pair behind the text \<^verbatim>\<open>[k/total]\<close>.\<close>

type_synonym label = "nat \<times> nat"

datatype spin_text = Text string | Running label string

datatype event =
    Clear                       \<comment> \<open>\<^verbatim>\<open>console.clear()\<close>\<close>
  | Say msg                     \<comment> \<open>a line written by \<^verbatim>\<open>typeWriter\<close> or \<^verbatim>\<open>console.log\<close>\<close>
  | Header nat nat string       \<comment> \<open>\<^verbatim>\<open>printStepHeader(step, total, title)\<close>, rule included\<close>
  | Motivation                  \<comment> \<open>\<^verbatim>\<open>randomMotivation()\<close>: one of twenty lines\<close>
  | BarStart nat nat            \<comment> \<open>\<^verbatim>\<open>progressBar.start(total, value)\<close>\<close>
  | BarUpdate nat               \<comment> \<open>\<^verbatim>\<open>progressBar.update(value)\<close>\<close>
  | BarStop                     \<comment> \<open>\<^verbatim>\<open>progressBar.stop()\<close>\<close>
  | Spin spin_text              \<comment> \<open>\<^verbatim>\<open>ora(text).start()\<close>\<close>
  | Spawn command bool          \<comment> \<open>an \<^verbatim>\<open>execa\<close> call, and whether its promise resolved\<close>
  | Succeed label string        \<comment> \<open>\<^verbatim>\<open>spinner.succeed\<close>: label, command, completed\<close>
  | Failed label string         \<comment> \<open>\<^verbatim>\<open>spinner.fail\<close>: label, command, failed\<close>
  | Prompt string               \<comment> \<open>\<^verbatim>\<open>inquirer.prompt\<close> with one list question of this name\<close>

text \<open>The commands a log says were spawned, in order.\<close>

definition spawned :: "event list \<Rightarrow> command list" where
  "spawned l = concat (map (\<lambda>e. case e of Spawn c ok \<Rightarrow> [c] | _ \<Rightarrow> []) l)"

record state =
  fs :: node
  penv :: penv
  step :: nat
  log :: "event list"

text \<open>
  What the script does not decide. \<open>execa n c root\<close> is for the command \<open>c\<close> that is
  spawned in the working directory \<open>root\<close> after \<open>n\<close> earlier commands of the run: it tells
  whether the promise resolves (exit code zero) or rejects (any other exit code, or no spawn
  at all), and the working directory the command leaves behind. \<open>dotenv\<close> is
  \<^verbatim>\<open>dotenv.config\<close> as a function of the content of the file it is pointed at and of
  \<^verbatim>\<open>process.env\<close>. The other three fields are the values the prompts return.
\<close>

record world =
  execa :: "nat \<Rightarrow> command \<Rightarrow> node \<Rightarrow> bool \<times> node"
  dotenv :: "jsstring \<Rightarrow> penv \<Rightarrow> penv"
  migrationOption :: string
  buildAssets :: bool
  runProd :: bool

text \<open>
  A run either goes on, or it stops: \<^verbatim>\<open>process.exit(n)\<close> stops it with status \<open>n\<close>,
  and an exception that nothing catches rejects the promise of \<^verbatim>\<open>main\<close>, after which
  Node (from version 15 on) ends the process with status 1.
\<close>

datatype stop = Exited int | Thrown error

datatype 'a outcome = Return 'a state | Stop stop state

type_synonym 'a action = "state \<Rightarrow> 'a outcome"

definition bind :: "'a action \<Rightarrow> ('a \<Rightarrow> 'b action) \<Rightarrow> 'b action" where
  "bind a f s = (case a s of Return x s' \<Rightarrow> f x s' | Stop k s' \<Rightarrow> Stop k s')"

fun seq :: "unit action list \<Rightarrow> unit action" where
  "seq [] s = Return () s"
| "seq (a # as) s = (case a s of Return x s' \<Rightarrow> seq as s' | Stop k s' \<Rightarrow> Stop k s')"

fun final :: "'a outcome \<Rightarrow> state" where
  "final (Return x s) = s"
| "final (Stop k s) = s"

fun exit_status :: "'a outcome \<Rightarrow> int" where
  "exit_status (Return x s) = 0"
| "exit_status (Stop (Exited n) s) = n"
| "exit_status (Stop (Thrown e) s) = 1"

definition emit :: "event \<Rightarrow> unit action" where
  "emit e s = Return () (s\<lparr>log := log s @ [e]\<rparr>)"

definition typeWriter :: "msg \<Rightarrow> unit action" where
  "typeWriter m = emit (Say m)"

definition console_log :: "msg \<Rightarrow> unit action" where
  "console_log m = emit (Say m)"

text \<open>A call of \<^verbatim>\<open>fs\<close> that changes the tree; its exception is not caught anywhere.\<close>

definition fs_call :: "(node \<Rightarrow> error + node) \<Rightarrow> unit action" where
  "fs_call f s =
     (case f (fs s) of
        Inl e \<Rightarrow> Stop (Thrown e) s
      | Inr root' \<Rightarrow> Return () (s\<lparr>fs := root'\<rparr>))"

text \<open>Line 157 of \<^verbatim>\<open>main\<close>.\<close>

definition totalSteps :: nat where
  "totalSteps = 11"

text \<open>\<^verbatim>\<open>runCommand\<close> (lines 63 to 75).\<close>

definition runCommand :: "world \<Rightarrow> string \<Rightarrow> string list \<Rightarrow> label \<Rightarrow> string \<Rightarrow> unit action" where
  "runCommand W command args stepLabel spinnerText s =
     (let spinner = (if spinnerText = [] then Running stepLabel command else Text spinnerText);
          r = execa W (length (spawned (log s))) (command, args) (fs s)
      in if fst r
         then Return () (s\<lparr>fs := snd r,
                log := log s @ [Spin spinner, Spawn (command, args) True,
                                Succeed stepLabel command]\<rparr>)
         else Stop (Exited 1) (s\<lparr>fs := snd r,
                log := log s @ [Spin spinner, Spawn (command, args) False,
                                Failed stepLabel command]\<rparr>))"

definition printStepHeader :: "string \<Rightarrow> unit action" where
  "printStepHeader title s = emit (Header (step s) totalSteps title) s"

definition randomMotivation :: "unit action" where
  "randomMotivation = emit Motivation"

text \<open>\<^verbatim>\<open>displayBanner\<close> (lines 115 to 121): the failure of the command is swallowed.\<close>

definition banner :: command where
  "banner = (''npx'', [''oh-my-logo'', ''VVECON'', ''dawn'', ''--filled'', ''--color''])"

definition displayBanner :: "world \<Rightarrow> unit action" where
  "displayBanner W s =
     (let r = execa W (length (spawned (log s))) banner (fs s)
      in Return () (s\<lparr>fs := snd r, log := log s @ [Spawn banner (fst r)]\<rparr>))"

text \<open>
  \<^verbatim>\<open>checkEnvironment\<close> (lines 126 to 145). \<^verbatim>\<open>dotenv.config\<close> reads the file itself and
  reports a read error in its result, which the script ignores.
\<close>

definition load_env :: "world \<Rightarrow> state \<Rightarrow> penv" where
  "load_env W s =
     (if existsSync (fs s) [''.env'']
      then (case readFileSync (fs s) [''.env''] of
              Inr c \<Rightarrow> dotenv W c (penv s)
            | Inl e \<Rightarrow> penv s)
      else penv s)"

definition app_env :: "penv \<Rightarrow> jsstring" where
  "app_env p =
     (case map_of p (lit ''APP_ENV'') of
        None \<Rightarrow> lit ''local''
      | Some v \<Rightarrow> if v = [] then lit ''local'' else v)"

definition production_warning :: "event list" where
  "production_warning = [Say ProdDetected, Say ProdDevOnly, Say ProdDataLoss, Say ProdHint]"

definition checkEnvironment :: "world \<Rightarrow> jsstring action" where
  "checkEnvironment W s =
     (let s1 = s\<lparr>penv := load_env W s\<rparr>;
          env = app_env (penv s1);
          isProduction = (env = lit ''production'')
      in if isProduction
         then Stop (Exited 1) (s1\<lparr>log := log s1 @ production_warning\<rparr>)
         else Return env s1)"

subsection \<open>The main setup script\<close>

text \<open>\<^verbatim>\<open>step++; progressBar.update(step - 1)\<close>, the two lines that close every block.\<close>

definition advance :: "unit action" where
  "advance s =
     (let s1 = s\<lparr>step := step s + 1\<rparr>
      in emit (BarUpdate (step s1 - 1)) s1)"

text \<open>Lines 151 to 165: banner, greeting, \<^verbatim>\<open>let step = 1\<close>, start of the progress bar.\<close>

definition start :: "world \<Rightarrow> unit action" where
  "start W =
     seq [emit Clear,
          displayBanner W,
          typeWriter Title,
          typeWriter Welcome,
          (\<lambda>s. Return () (s\<lparr>step := 1\<rparr>)),
          emit (BarStart totalSteps 0)]"

text \<open>Step 1, lines 168 to 175.\<close>

definition step1 :: "unit action" where
  "step1 =
     seq [printStepHeader ''Cleaning composer.lock'',
          (\<lambda>s. if existsSync (fs s) [''composer.lock'']
                then typeWriter LockDeleted s
                else typeWriter NoLock s),
          randomMotivation,
          advance]"

text \<open>Step 2, lines 177 to 182.\<close>

definition step2 :: "world \<Rightarrow> unit action" where
  "step2 W =
     seq [printStepHeader ''Installing Composer dependencies (no-scripts)'',
          runCommand W ''composer''
            [''install'', ''--no-scripts'', ''--no-interaction'', ''--no-ansi'']
            (2, totalSteps) ''Installing PHP dependencies...'',
          randomMotivation,
          advance]"

text \<open>Step 3, lines 184 to 200: the environment file and the application key.\<close>

definition key_generate :: "world \<Rightarrow> unit action" where
  "key_generate W =
     runCommand W ''php'' [''artisan'', ''key:generate''] (3, totalSteps)
       ''Generating APP_KEY...''"

definition step3_env :: "world \<Rightarrow> unit action" where
  "step3_env W =
     seq [printStepHeader ''Setting up .env'',
          (\<lambda>s. if \<not> existsSync (fs s) [''.env'']
                then seq [fs_call (\<lambda>root. copyFileSync root [''.env.example''] [''.env'']),
                          typeWriter EnvCreated,
                          typeWriter EnvReminder,
                          key_generate W] s
                else (case readFileSync (fs s) [''.env''] of
                        Inl e \<Rightarrow> Stop (Thrown e) s
                      | Inr envContent \<Rightarrow>
                          if \<not> app_key_test envContent
                          then seq [typeWriter KeyEmpty, key_generate W] s
                          else typeWriter EnvValid s))]"

text \<open>Step 3, lines 202 to 208: the environment check, then the end of the block.\<close>

definition step3_check :: "world \<Rightarrow> unit action" where
  "step3_check W =
     seq [bind (checkEnvironment W) (\<lambda>currentEnv. typeWriter (EnvCheckPassed currentEnv)),
          randomMotivation,
          advance]"

text \<open>Step 4, lines 210 to 215.\<close>

definition step4 :: "world \<Rightarrow> unit action" where
  "step4 W =
     seq [printStepHeader ''Re-running Composer install (with scripts)'',
          runCommand W ''composer'' [''install'', ''--no-interaction'', ''--no-ansi'']
            (4, totalSteps) ''Running composer scripts...'',
          randomMotivation,
          advance]"

text \<open>Step 5, lines 217 to 227.\<close>

definition step5 :: "unit action" where
  "step5 =
     seq [printStepHeader ''Cleaning public/storage'',
          (\<lambda>s. if existsSync (fs s) [''public'', ''storage'']
                then seq [fs_call (\<lambda>root. deleteDirectoryContents root [''public'', ''storage'']),
                          fs_call (\<lambda>root. deleteDirectory root [''public'', ''storage'']),
                          typeWriter StorageRemoved] s
                else typeWriter StorageNotFound s),
          randomMotivation,
          advance]"

text \<open>Step 6, lines 229 to 234.\<close>

definition step6 :: "world \<Rightarrow> unit action" where
  "step6 W =
     seq [printStepHeader ''Creating storage symlink'',
          runCommand W ''php'' [''artisan'', ''storage:link'']
            (6, totalSteps) ''Creating storage symlink...'',
          randomMotivation,
          advance]"

text \<open>Step 7, lines 236 to 272: the prompt returns the value of the chosen entry.\<close>

definition ask :: "string \<Rightarrow> 'a \<Rightarrow> 'a action" where
  "ask name answer s = Return answer (s\<lparr>log := log s @ [Prompt name]\<rparr>)"

definition migrate :: "world \<Rightarrow> string \<Rightarrow> unit action" where
  "migrate W option =
     (if option = ''migrate'' then
        runCommand W ''php'' [''artisan'', ''migrate''] (7, totalSteps)
          ''Running migrations...''
      else if option = ''migrate:fresh'' then
        runCommand W ''php'' [''artisan'', ''migrate:fresh''] (7, totalSteps)
          ''Running fresh migrations...''
      else if option = ''seed'' then
        seq [runCommand W ''php'' [''artisan'', ''migrate''] (7, totalSteps)
               ''Running migrations...'',
             runCommand W ''php'' [''artisan'', ''db:seed''] (7, totalSteps)
               ''Seeding database...'']
      else if option = ''seed:fresh'' then
        runCommand W ''php'' [''artisan'', ''migrate:fresh'', ''--seed''] (7, totalSteps)
          ''Running fresh migrations with seed...''
      else typeWriter SkipMigration)"

definition step7 :: "world \<Rightarrow> unit action" where
  "step7 W =
     seq [printStepHeader ''Database migration'',
          bind (ask ''migrationOption'' (migrationOption W)) (migrate W),
          randomMotivation,
          advance]"

text \<open>Step 8, lines 274 to 279.\<close>

definition step8 :: "world \<Rightarrow> unit action" where
  "step8 W =
     seq [printStepHeader ''Caching icons'',
          runCommand W ''php'' [''artisan'', ''icon:cache''] (8, totalSteps)
            ''Caching icons...'',
          randomMotivation,
          advance]"

text \<open>Step 9, lines 281 to 299.\<close>

definition step9 :: "world \<Rightarrow> unit action" where
  "step9 W =
     seq [printStepHeader ''Frontend asset build'',
          bind (ask ''buildAssets'' (buildAssets W))
            (\<lambda>answer. if answer
               then runCommand W ''npm'' [''run'', ''build''] (9, totalSteps)
                      ''Building frontend assets...''
               else typeWriter SkipBuild),
          randomMotivation,
          advance]"

text \<open>Step 10, lines 301 to 329.\<close>

definition prodCommands :: "command list" where
  "prodCommands =
     [(''php'', [''artisan'', ''config:cache'']),
      (''php'', [''artisan'', ''route:cache'']),
      (''php'', [''artisan'', ''view:cache'']),
      (''php'', [''artisan'', ''optimize'']),
      (''php'', [''artisan'', ''filament:cache-components''])]"

definition step10 :: "world \<Rightarrow> unit action" where
  "step10 W =
     seq [printStepHeader ''Production optimizations'',
          bind (ask ''runProd'' (runProd W))
            (\<lambda>answer. if answer
               then seq (map (\<lambda>c. runCommand W (fst c) (snd c) (10, totalSteps)
                                     ''Optimizing production...'') prodCommands)
               else typeWriter SkipProd),
          randomMotivation,
          advance]"

text \<open>Step 11, lines 331 to 346: the bar is stopped and the closing lines are printed.\<close>

definition complete :: "world \<Rightarrow> unit action" where
  "complete W =
     seq [emit BarStop,
          emit Clear,
          typeWriter Completed,
          console_log Rule,
          typeWriter NextSteps,
          typeWriter HintDev,
          typeWriter HintVisit,
          typeWriter HintReadme,
          typeWriter HappyCoding,
          displayBanner W]"

text \<open>
  The blocks of \<^verbatim>\<open>main\<close> in their order, cut where the environment check begins.
\<close>

definition before_check :: "world \<Rightarrow> unit action list" where
  "before_check W = [start W, step1, step2 W, step3_env W]"

definition from_check :: "world \<Rightarrow> unit action list" where
  "from_check W =
     [step3_check W, step4 W, step5, step6 W, step7 W, step8 W, step9 W, step10 W, complete W]"

definition initial :: "node \<Rightarrow> penv \<Rightarrow> state" where
  "initial root env = \<lparr>fs = root, penv = env, step = 0, log = []\<rparr>"

definition main :: "world \<Rightarrow> node \<Rightarrow> penv \<Rightarrow> unit outcome" where
  "main W root env = seq (before_check W @ from_check W) (initial root env)"

subsection \<open>A world for the examples\<close>

text \<open>
  A stand-in for the \<^verbatim>\<open>dotenv\<close> library, used for the concrete runs below only. It reads
  files made of plain \<^verbatim>\<open>KEY=VALUE\<close> lines that end in LF, with no quotes, blanks,
  comments, carriage returns or \<^verbatim>\<open>export\<close> prefix, all of which the library treats
  specially. Like the library, it lets a later assignment of a key replace an earlier one,
  and with the default options it does not overwrite a variable that \<^verbatim>\<open>process.env\<close>
  already has.
\<close>

fun split_lines :: "jsstring \<Rightarrow> jsstring list" where
  "split_lines [] = [[]]"
| "split_lines (c # cs) =
     (if c = 0x0A then [] # split_lines cs
      else (case split_lines cs of l # ls \<Rightarrow> (c # l) # ls | [] \<Rightarrow> [[c]]))"

definition parse_line :: "jsstring \<Rightarrow> (jsstring \<times> jsstring) option" where
  "parse_line l =
     (if 0x3D \<in> set l
      then Some (takeWhile (\<lambda>c. c \<noteq> 0x3D) l, tl (dropWhile (\<lambda>c. c \<noteq> 0x3D) l))
      else None)"

fun assign :: "jsstring \<Rightarrow> jsstring \<Rightarrow> penv \<Rightarrow> penv" where
  "assign k v [] = [(k, v)]"
| "assign k v (e # es) = (if fst e = k then (k, v) # es else e # assign k v es)"

definition parse_dotenv :: "jsstring \<Rightarrow> penv" where
  "parse_dotenv content =
     fold (\<lambda>l parsed. case parse_line l of
                         None \<Rightarrow> parsed
                       | Some (k, v) \<Rightarrow> assign k v parsed)
          (split_lines content) []"

definition plain_dotenv :: "jsstring \<Rightarrow> penv \<Rightarrow> penv" where
  "plain_dotenv content p =
     fold (\<lambda>e p. if map_of p (fst e) = None then p @ [e] else p) (parse_dotenv content) p"

text \<open>
  Every command exits with code zero and leaves the working directory as it is, as a test
  double would; \<open>quiet\<close> answers every prompt with its first entry.
\<close>

definition quiet :: world where
  "quiet = \<lparr>execa = (\<lambda>n c root. (True, root)), dotenv = plain_dotenv,
             migrationOption = ''none'', buildAssets = False, runProd = False\<rparr>"

section \<open>What the properties speak about\<close>

text \<open>The commands that \<^verbatim>\<open>main\<close> hands to \<^verbatim>\<open>runCommand\<close> outside the choice steps.\<close>

definition composer_install_no_scripts :: command where
  "composer_install_no_scripts =
     (''composer'', [''install'', ''--no-scripts'', ''--no-interaction'', ''--no-ansi''])"

definition key_generate_command :: command where
  "key_generate_command = (''php'', [''artisan'', ''key:generate''])"

definition composer_install :: command where
  "composer_install = (''composer'', [''install'', ''--no-interaction'', ''--no-ansi''])"

definition storage_link :: command where
  "storage_link = (''php'', [''artisan'', ''storage:link''])"

definition icon_cache :: command where
  "icon_cache = (''php'', [''artisan'', ''icon:cache''])"

text \<open>The values the progress bar was given, in order.\<close>

fun progress_of :: "event \<Rightarrow> nat list" where
  "progress_of (BarStart t v) = [v]"
| "progress_of (BarUpdate v) = [v]"
| "progress_of e = []"

definition progress_values :: "event list \<Rightarrow> nat list" where
  "progress_values l = concat (map progress_of l)"

text \<open>
  The step headers and the progress reports of a log, and the order in which a run that
  completes must show them: a header opens each step, a report closes it.
\<close>

fun is_mark :: "event \<Rightarrow> bool" where
  "is_mark (BarStart t v) = True"
| "is_mark (BarUpdate v) = True"
| "is_mark (Header k t title) = True"
| "is_mark e = False"

definition marks :: "event list \<Rightarrow> event list" where
  "marks l = filter is_mark l"

definition schedule :: "event list" where
  "schedule =
    [BarStart 11 0,
     Header 1 11 ''Cleaning composer.lock'', BarUpdate 1,
     Header 2 11 ''Installing Composer dependencies (no-scripts)'', BarUpdate 2,
     Header 3 11 ''Setting up .env'', BarUpdate 3,
     Header 4 11 ''Re-running Composer install (with scripts)'', BarUpdate 4,
     Header 5 11 ''Cleaning public/storage'', BarUpdate 5,
     Header 6 11 ''Creating storage symlink'', BarUpdate 6,
     Header 7 11 ''Database migration'', BarUpdate 7,
     Header 8 11 ''Caching icons'', BarUpdate 8,
     Header 9 11 ''Frontend asset build'', BarUpdate 9,
     Header 10 11 ''Production optimizations'', BarUpdate 10]"

text \<open>
  \<open>holds P a Q F\<close>: started in a state that satisfies \<open>P\<close>, the action \<open>a\<close> either goes on
  in a state that satisfies \<open>Q\<close> or stops in one that satisfies \<open>F\<close>.
\<close>

definition holds ::
  "(state \<Rightarrow> bool) \<Rightarrow> 'a action \<Rightarrow> (state \<Rightarrow> bool) \<Rightarrow> (stop \<Rightarrow> state \<Rightarrow> bool) \<Rightarrow> bool" where
  "holds P a Q F = (\<forall>s. P s \<longrightarrow> (case a s of Return x s' \<Rightarrow> Q s' | Stop k s' \<Rightarrow> F k s'))"

definition at_mark :: "nat \<Rightarrow> nat \<Rightarrow> state \<Rightarrow> bool" where
  "at_mark n k s = (marks (log s) = take n schedule \<and> step s = k)"

definition on_schedule :: "stop \<Rightarrow> state \<Rightarrow> bool" where
  "on_schedule k s = (\<exists>n. 0 < n \<and> n < 21 \<and> marks (log s) = take n schedule)"

text \<open>
  A log without a failed step: the only command that may have failed in it is the banner,
  whose failure \<^verbatim>\<open>displayBanner\<close> swallows. A log that ends in a failed step: spinner,
  failed command and failure report are its last three events, and nothing failed before.
\<close>

fun ok_event :: "event \<Rightarrow> bool" where
  "ok_event (Spawn c ok) = (ok \<or> c = banner)"
| "ok_event e = True"

definition no_failure :: "state \<Rightarrow> bool" where
  "no_failure s = list_all ok_event (log s)"

fun failure_rev :: "event list \<Rightarrow> bool" where
  "failure_rev (Failed lab x # Spawn c False # Spin sp # r) =
     (x = fst c \<and> list_all ok_event r)"
| "failure_rev l = False"

definition failure_tail :: "event list \<Rightarrow> bool" where
  "failure_tail l = failure_rev (rev l)"

definition fail_fast :: "stop \<Rightarrow> state \<Rightarrow> bool" where
  "fail_fast k s = (list_all ok_event (log s) \<or> (k = Exited 1 \<and> failure_tail (log s)))"

text \<open>
  The shape of a log, step by step. The run opens with the greeting, in which the progress bar
  is started at 0. A step that was completed or skipped leaves a segment: its header, its
  work, the encouragement and then one progress report with the number of the step. The work
  of such a step holds no header and no progress report, and no command failed in it. A run
  that completes ends with the closing block, which reports nothing.
\<close>

definition titles :: "string list" where
  "titles =
    [''Cleaning composer.lock'',
     ''Installing Composer dependencies (no-scripts)'',
     ''Setting up .env'',
     ''Re-running Composer install (with scripts)'',
     ''Cleaning public/storage'',
     ''Creating storage symlink'',
     ''Database migration'',
     ''Caching icons'',
     ''Frontend asset build'',
     ''Production optimizations'']"

definition title :: "nat \<Rightarrow> string" where
  "title k = titles ! (k - 1)"

definition greeting :: "bool \<Rightarrow> event list" where
  "greeting b = [Clear, Spawn banner b, Say Title, Say Welcome, BarStart totalSteps 0]"

definition closing :: "bool \<Rightarrow> event list" where
  "closing b =
    [BarStop, Clear, Say Completed, Say Rule, Say NextSteps, Say HintDev, Say HintVisit,
     Say HintReadme, Say HappyCoding, Spawn banner b]"

definition work_ok :: "event list \<Rightarrow> bool" where
  "work_ok w = list_all (\<lambda>e. \<not> is_mark e \<and> ok_event e) w"

definition unmarked :: "event list \<Rightarrow> bool" where
  "unmarked w = list_all (\<lambda>e. \<not> is_mark e) w"

definition step_segment :: "nat \<Rightarrow> event list \<Rightarrow> event list" where
  "step_segment k w = Header k totalSteps (title k) # w @ [Motivation, BarUpdate k]"

fun segments_from :: "nat \<Rightarrow> event list list \<Rightarrow> event list" where
  "segments_from k [] = []"
| "segments_from k (w # ws) = step_segment k w @ segments_from (Suc k) ws"

definition finished :: "nat \<Rightarrow> event list \<Rightarrow> bool" where
  "finished k l =
     (\<exists>b ws. l = greeting b @ segments_from 1 ws \<and> length ws = k \<and> list_all work_ok ws)"

definition inside :: "nat \<Rightarrow> (event list \<Rightarrow> bool) \<Rightarrow> event list \<Rightarrow> bool" where
  "inside k P l =
     (\<exists>b ws w. l = greeting b @ segments_from 1 ws
                  @ Header (Suc k) totalSteps (title (Suc k)) # w
              \<and> length ws = k \<and> list_all work_ok ws \<and> P w)"

definition done_log :: "event list \<Rightarrow> bool" where
  "done_log l = (\<exists>b ws b'. l = greeting b @ segments_from 1 ws @ closing b' \<and>
       length ws = 10 \<and> list_all work_ok ws)"

text \<open>
  Two checks that compute: \<open>closes k\<close> accepts the events of a step after its header when
  they are work followed by the encouragement and the report \<open>k\<close>; \<open>opens k P\<close> accepts a
  header of step \<open>k\<close> followed by events that satisfy \<open>P\<close>.
\<close>

fun closes :: "nat \<Rightarrow> event list \<Rightarrow> bool" where
  "closes k [] = False"
| "closes k (e # rest) =
     ((e = Motivation \<and> rest = [BarUpdate k]) \<or> (\<not> is_mark e \<and> ok_event e \<and> closes k rest))"

fun opens :: "nat \<Rightarrow> (event list \<Rightarrow> bool) \<Rightarrow> event list \<Rightarrow> bool" where
  "opens k P (Header j n t # w) = (j = k \<and> n = totalSteps \<and> t = title k \<and> P w)"
| "opens k P l = False"

definition at_step :: "nat \<Rightarrow> state \<Rightarrow> bool" where
  "at_step k s = (finished k (log s) \<and> step s = Suc k)"

definition stuck :: "stop \<Rightarrow> state \<Rightarrow> bool" where
  "stuck x s = (\<exists>k<10. inside k unmarked (log s))"

definition in_step :: "nat \<Rightarrow> state \<Rightarrow> bool" where
  "in_step k s = (inside k work_ok (log s) \<and> step s = Suc k)"

text \<open>
  A second world and three working directories for the examples. In \<open>broken\<close> the second
  Composer install exits with an error; everything else is as in \<open>quiet\<close>.
\<close>

definition broken :: world where
  "broken = \<lparr>execa = (\<lambda>n c root. (c \<noteq> composer_install, root)), dotenv = plain_dotenv,
              migrationOption = ''none'', buildAssets = False, runProd = False\<rparr>"

definition production_template :: node where
  "production_template = Dir [(''.env.example'', File (lit ''APP_ENV=production''))]"

definition fresh :: node where
  "fresh = Dir [(''.env.example'', File (lit ''APP_ENV=local''))]"

definition configured :: node where
  "configured = Dir [(''.env'', File (lit ''#APP_KEY=old'')), (''composer.lock'', File [])]"

section \<open>Termination of the recursive deletion\<close>

lemma dirs_remove: "dirs (remove n p) \<le> dirs n"
proof (induction n p rule: remove.induct)
  case (3 es x)
  show ?case by (induction es) auto
next
  case (4 es x y ys)
  then have "\<And>e. e \<in> set es \<Longrightarrow>
      dirs (snd (if fst e = x then (fst e, remove (snd e) (y # ys)) else e)) \<le> dirs (snd e)"
    by auto
  then have "sum_list (map (\<lambda>e. dirs (snd (if fst e = x then (fst e, remove (snd e) (y # ys))
        else e))) es) \<le> sum_list (map (\<lambda>e. dirs (snd e)) es)"
    by (intro sum_list_mono) auto
  then show ?case by (simp add: comp_def)
qed auto

lemma lookup_dir_depth: "lookup n p = Some (Dir es) \<Longrightarrow> length p < dirs n"
proof (induction n p rule: lookup.induct)
  case (3 ds x xs)
  then obtain m where m: "map_of ds x = Some m" and l: "lookup m xs = Some (Dir es)"
    by (auto split: option.splits)
  from 3(1)[OF m l] have "length xs < dirs m" .
  moreover have "(x, m) \<in> set ds" using m by (rule map_of_SomeD)
  then have "dirs m \<le> sum_list (map (\<lambda>e. dirs (snd e)) ds)"
    by (induction ds) auto
  ultimately show ?case by simp
qed auto

lemma deleteDirectory_dirs:
  "deleteDirectory_deleteDirectory_items_dom (Inl (root, dir)) \<Longrightarrow>
     deleteDirectory root dir = Inr r \<Longrightarrow> dirs r \<le> dirs root"
  "deleteDirectory_deleteDirectory_items_dom (Inr (root, dir, items)) \<Longrightarrow>
     deleteDirectory_items root dir items = Inr r' \<Longrightarrow> dirs r' \<le> dirs root"
proof (induction root dir and root dir items arbitrary: r and r'
    rule: deleteDirectory_deleteDirectory_items.pinduct)
  case (1 root dir)
  show ?case
  proof (cases "existsSync root dir")
    case False
    with 1 show ?thesis by (simp add: deleteDirectory.psimps)
  next
    case True
    show ?thesis
    proof (cases "isDirectory root dir")
      case (Inl e)
      with 1 True show ?thesis by (simp add: deleteDirectory.psimps)
    next
      case (Inr b)
      show ?thesis
      proof (cases b)
        case False
        with 1(1,3) True Inr have "unlinkSync root dir = Inr r"
          by (simp add: deleteDirectory.psimps)
        then show ?thesis
          using dirs_remove [of root dir]
          by (auto simp: unlinkSync_def split: option.splits node.splits)
      next
        case b: True
        from 1(1,3) True Inr b obtain items mid where
          rd: "readdirSync root dir = Inr items" and
          lp: "deleteDirectory_items root dir items = Inr mid" and
          rm: "rmdirSync mid dir = Inr r"
          by (auto simp: deleteDirectory.psimps split: sum.splits)
        from 1(2) True Inr b rd lp have "dirs mid \<le> dirs root" by simp
        moreover from rm have "dirs r \<le> dirs mid"
          using dirs_remove [of mid dir]
          by (auto simp: rmdirSync_def split: option.splits node.splits if_splits)
        ultimately show ?thesis by simp
      qed
    qed
  qed
next
  case (2 root dir)
  then show ?case by (simp add: deleteDirectory_items.psimps)
next
  case (3 root dir item items)
  show ?case
  proof (cases "item = ''.'' \<or> item = ''..''")
    case True
    with 3 show ?thesis by (simp add: deleteDirectory_items.psimps)
  next
    case False
    with 3(1,5) obtain mid where
      d: "deleteDirectory root (dir @ [item]) = Inr mid" and
      l: "deleteDirectory_items mid dir items = Inr r'"
      by (auto simp: deleteDirectory_items.psimps split: sum.splits)
    from 3(3) False d have "dirs mid \<le> dirs root" by simp
    moreover from 3(4) False d l have "dirs r' \<le> dirs mid" by simp
    ultimately show ?thesis by simp
  qed
qed

termination deleteDirectory
proof (relation "measures
    [\<lambda>a. case a of
        Inl (root, dir) \<Rightarrow> if is_dir root dir then 2 * (dirs root - length dir) + 2 else 0
      | Inr (root, dir, items) \<Rightarrow> 2 * (dirs root - length dir) + 1,
     \<lambda>a. case a of Inl (root, dir) \<Rightarrow> 0 | Inr (root, dir, items) \<Rightarrow> length items]",
    goal_cases)
  case 1
  show ?case by simp
next
  case (2 root dir b items)
  then show ?case
    by (auto simp: is_dir_def isDirectory_def split: option.splits node.splits)
next
  case (3 root dir item items)
  then show ?case by simp
next
  case (4 root dir item items)
  show ?case
  proof (cases "is_dir root (dir @ [item])")
    case True
    then obtain es where "lookup root (dir @ [item]) = Some (Dir es)"
      by (auto simp: is_dir_def split: option.splits node.splits)
    from lookup_dir_depth [OF this] show ?thesis using True by auto
  next
    case False
    then show ?thesis by simp
  qed
next
  case (5 root dir item items mid)
  from deleteDirectory_dirs(1) [OF 5(3) 5(2)] show ?case by auto
qed

section \<open>Facts about the building blocks\<close>

lemmas act_defs = emit_def typeWriter_def console_log_def printStepHeader_def
  randomMotivation_def advance_def bind_def ask_def fs_call_def totalSteps_def

lemmas step_defs = start_def step1_def step2_def step3_env_def step3_check_def step4_def
  step5_def step6_def step7_def step8_def step9_def step10_def complete_def

lemmas command_defs = composer_install_no_scripts_def key_generate_command_def
  composer_install_def storage_link_def icon_cache_def

lemma spawned_append [simp]: "spawned (a @ b) = spawned a @ spawned b"
  by (simp add: spawned_def)

lemma spawned_simps [simp]:
  "spawned [] = []"
  "spawned (Spawn c ok # l) = c # spawned l"
  "spawned (Say m # l) = spawned l"
  "spawned (Header a b t # l) = spawned l"
  "spawned (Spin sp # l) = spawned l"
  "spawned (Succeed lab x # l) = spawned l"
  "spawned (Failed lab x # l) = spawned l"
  "spawned (Motivation # l) = spawned l"
  "spawned (BarUpdate a # l) = spawned l"
  "spawned (BarStart a b # l) = spawned l"
  "spawned (Prompt x # l) = spawned l"
  "spawned (Clear # l) = spawned l"
  "spawned (BarStop # l) = spawned l"
  by (simp_all add: spawned_def)

lemma seq_append:
  "seq (as @ bs) s = (case seq as s of Return x s' \<Rightarrow> seq bs s' | Stop k s' \<Rightarrow> Stop k s')"
  by (induction as arbitrary: s) (auto split: outcome.splits)

lemma holds_seq_Nil: "holds P (seq []) P F"
  by (simp add: holds_def)

lemma holds_seq_Cons:
  "holds P a Q F \<Longrightarrow> holds Q (seq as) R F \<Longrightarrow> holds P (seq (a # as)) R F"
  by (auto simp: holds_def split: outcome.splits)

lemma holds_weaken:
  "holds P a Q F \<Longrightarrow> (\<And>k s. F k s \<Longrightarrow> F' k s) \<Longrightarrow> holds P a Q F'"
  by (auto simp: holds_def split: outcome.splits)

lemma map_of_put: "map_of (put k v es) x = (if x = k then Some v else map_of es x)"
  by (induction es) auto

lemma copy_template:
  assumes "lookup root [''.env.example''] = Some (File t)" and "lookup root [''.env''] = None"
  shows "\<exists>r. copyFileSync root [''.env.example''] [''.env''] = Inr r \<and>
             lookup r [''.env''] = Some (File t)"
proof (cases root)
  case (File c)
  with assms show ?thesis by simp
next
  case (Dir es)
  with assms have "map_of es ''.env'' = None"
    by (auto split: option.splits)
  with Dir assms(1) show ?thesis
    by (simp add: copyFileSync_def map_of_put)
qed

lemma strip_prefix_Some: "strip_prefix xs ys = Some zs \<longleftrightarrow> ys = xs @ zs"
  by (induction xs ys rule: strip_prefix.induct) auto

lemma app_key_match_at_iff:
  "app_key_match_at s \<longleftrightarrow>
     (\<exists>d post. s = lit ''APP_KEY='' @ d # post \<and> \<not> is_line_terminator d)"
proof (cases "strip_prefix (lit ''APP_KEY='') s")
  case None
  then have "\<And>zs. s \<noteq> lit ''APP_KEY='' @ zs"
    using strip_prefix_Some [of "lit ''APP_KEY=''" s] by auto
  with None show ?thesis by (auto simp: app_key_match_at_def)
next
  case (Some zs)
  then have "s = lit ''APP_KEY='' @ zs" by (simp add: strip_prefix_Some)
  with Some show ?thesis by (cases zs) (auto simp: app_key_match_at_def)
qed

lemma app_key_test_iff:
  "app_key_test s \<longleftrightarrow>
     (\<exists>pre d post. s = pre @ lit ''APP_KEY='' @ d # post \<and> \<not> is_line_terminator d)"
proof (induction s)
  case Nil
  then show ?case by simp
next
  case (Cons c cs)
  show ?case
  proof
    assume "app_key_test (c # cs)"
    then consider "app_key_match_at (c # cs)" | "app_key_test cs" by auto
    then show "\<exists>pre d post. c # cs = pre @ lit ''APP_KEY='' @ d # post \<and> \<not> is_line_terminator d"
    proof cases
      case 1
      then obtain d post where
        "c # cs = [] @ lit ''APP_KEY='' @ d # post" "\<not> is_line_terminator d"
        by (auto simp: app_key_match_at_iff)
      then show ?thesis by blast
    next
      case 2
      with Cons obtain pre d post where
        "cs = pre @ lit ''APP_KEY='' @ d # post" and d: "\<not> is_line_terminator d"
        by auto
      then have "c # cs = (c # pre) @ lit ''APP_KEY='' @ d # post" by simp
      with d show ?thesis by blast
    qed
  next
    assume "\<exists>pre d post. c # cs = pre @ lit ''APP_KEY='' @ d # post \<and> \<not> is_line_terminator d"
    then obtain pre d post where
      e: "c # cs = pre @ lit ''APP_KEY='' @ d # post" and d: "\<not> is_line_terminator d"
      by blast
    show "app_key_test (c # cs)"
    proof (cases pre)
      case Nil
      with e d have "app_key_match_at (c # cs)" by (auto simp: app_key_match_at_iff)
      then show ?thesis by simp
    next
      case (Cons p ps)
      with e have "cs = ps @ lit ''APP_KEY='' @ d # post" by simp
      with d Cons.IH have "app_key_test cs" by blast
      then show ?thesis by simp
    qed
  qed
qed

section \<open>Headers and progress reports along a run\<close>

lemma marks_append [simp]: "marks (a @ b) = marks a @ marks b"
  by (simp add: marks_def)

lemma marks_Nil [simp]: "marks [] = []"
  by (simp add: marks_def)

lemma marks_Cons [simp]: "marks (e # l) = (if is_mark e then e # marks l else marks l)"
  by (simp add: marks_def)

lemma start_marks: "holds (\<lambda>s. log s = []) (start W) (at_mark 1 1) F"
  by (simp add: holds_def at_mark_def schedule_def start_def displayBanner_def act_defs Let_def)

lemma step1_marks: "holds (at_mark 1 1) step1 (at_mark 3 2) F"
  by (simp add: holds_def at_mark_def schedule_def step1_def act_defs Let_def)

lemma step2_marks:
  "holds (at_mark 3 2) (step2 W) (at_mark 5 3) (\<lambda>k s. marks (log s) = take 4 schedule)"
  by (simp add: holds_def at_mark_def schedule_def step2_def runCommand_def act_defs Let_def)

lemma step3_env_marks:
  "holds (at_mark 5 3) (step3_env W) (at_mark 6 3) (\<lambda>k s. marks (log s) = take 6 schedule)"
  by (simp add: holds_def at_mark_def schedule_def step3_env_def key_generate_def
      runCommand_def act_defs Let_def split: sum.splits)

lemma step3_check_marks:
  "holds (at_mark 6 3) (step3_check W) (at_mark 7 4) (\<lambda>k s. marks (log s) = take 6 schedule)"
  by (simp add: holds_def at_mark_def schedule_def step3_check_def checkEnvironment_def
      production_warning_def act_defs Let_def)

lemma step4_marks:
  "holds (at_mark 7 4) (step4 W) (at_mark 9 5) (\<lambda>k s. marks (log s) = take 8 schedule)"
  by (simp add: holds_def at_mark_def schedule_def step4_def runCommand_def act_defs Let_def)

lemma step5_marks:
  "holds (at_mark 9 5) step5 (at_mark 11 6) (\<lambda>k s. marks (log s) = take 10 schedule)"
  by (simp add: holds_def at_mark_def schedule_def step5_def act_defs Let_def
      split: sum.splits)

lemma step6_marks:
  "holds (at_mark 11 6) (step6 W) (at_mark 13 7) (\<lambda>k s. marks (log s) = take 12 schedule)"
  by (simp add: holds_def at_mark_def schedule_def step6_def runCommand_def act_defs Let_def)

lemma step7_marks:
  "holds (at_mark 13 7) (step7 W) (at_mark 15 8) (\<lambda>k s. marks (log s) = take 14 schedule)"
  by (simp add: holds_def at_mark_def schedule_def step7_def migrate_def runCommand_def
      act_defs Let_def)

lemma step8_marks:
  "holds (at_mark 15 8) (step8 W) (at_mark 17 9) (\<lambda>k s. marks (log s) = take 16 schedule)"
  by (simp add: holds_def at_mark_def schedule_def step8_def runCommand_def act_defs Let_def)

lemma step9_marks:
  "holds (at_mark 17 9) (step9 W) (at_mark 19 10) (\<lambda>k s. marks (log s) = take 18 schedule)"
  by (simp add: holds_def at_mark_def schedule_def step9_def runCommand_def act_defs Let_def)

lemma step10_marks:
  "holds (at_mark 19 10) (step10 W) (at_mark 21 11) (\<lambda>k s. marks (log s) = take 20 schedule)"
  by (simp add: holds_def at_mark_def schedule_def step10_def prodCommands_def runCommand_def
      act_defs Let_def)

lemma complete_marks: "holds (at_mark 21 11) (complete W) (at_mark 21 11) F"
  by (simp add: holds_def at_mark_def schedule_def complete_def displayBanner_def act_defs
      Let_def)

lemma on_scheduleI:
  "marks (log s) = take n schedule \<Longrightarrow> 0 < n \<Longrightarrow> n < 21 \<Longrightarrow> on_schedule k s"
  by (auto simp: on_schedule_def)

lemma main_marks:
  "holds (\<lambda>s. log s = []) (seq (before_check W @ from_check W)) (at_mark 21 11) on_schedule"
  unfolding before_check_def from_check_def append.simps
  apply (rule holds_seq_Cons [OF start_marks])
  apply (rule holds_seq_Cons [OF step1_marks])
  apply (rule holds_seq_Cons [OF holds_weaken [OF step2_marks]], erule on_scheduleI, simp, simp)
  apply (rule holds_seq_Cons [OF holds_weaken [OF step3_env_marks]], erule on_scheduleI, simp, simp)
  apply (rule holds_seq_Cons [OF holds_weaken [OF step3_check_marks]], erule on_scheduleI, simp, simp)
  apply (rule holds_seq_Cons [OF holds_weaken [OF step4_marks]], erule on_scheduleI, simp, simp)
  apply (rule holds_seq_Cons [OF holds_weaken [OF step5_marks]], erule on_scheduleI, simp, simp)
  apply (rule holds_seq_Cons [OF holds_weaken [OF step6_marks]], erule on_scheduleI, simp, simp)
  apply (rule holds_seq_Cons [OF holds_weaken [OF step7_marks]], erule on_scheduleI, simp, simp)
  apply (rule holds_seq_Cons [OF holds_weaken [OF step8_marks]], erule on_scheduleI, simp, simp)
  apply (rule holds_seq_Cons [OF holds_weaken [OF step9_marks]], erule on_scheduleI, simp, simp)
  apply (rule holds_seq_Cons [OF holds_weaken [OF step10_marks]], erule on_scheduleI, simp, simp)
  apply (rule holds_seq_Cons [OF complete_marks])
  apply (rule holds_seq_Nil)
  done

lemma main_cases:
  "(\<exists>s. main W root env = Return () s \<and> marks (log s) = schedule \<and> step s = 11)
   \<or> (\<exists>k s n. main W root env = Stop k s \<and> 0 < n \<and> n < 21 \<and> marks (log s) = take n schedule)"
proof -
  have "log (initial root env) = []" by (simp add: initial_def)
  with main_marks [of W] show ?thesis
    unfolding holds_def main_def
    by (cases "seq (before_check W @ from_check W) (initial root env)")
       (fastforce simp: at_mark_def on_schedule_def schedule_def)+
qed

lemma progress_values_marks: "progress_values (marks l) = progress_values l"
proof (induction l)
  case Nil
  show ?case by simp
next
  case (Cons e l)
  then show ?case by (cases e) (simp_all add: progress_values_def)
qed

lemma progress_values_schedule: "progress_values schedule = [0..<11]"
  by (simp add: progress_values_def schedule_def upt_rec)

lemma progress_values_prefix:
  "prefix xs ys \<Longrightarrow> prefix (progress_values xs) (progress_values ys)"
  by (auto simp: prefix_def progress_values_def)

lemma prefix_upt: "prefix xs [0..<n] \<Longrightarrow> xs = [0..<length xs]"
proof -
  assume "prefix xs [0..<n]"
  then obtain zs where z: "[0..<n] = xs @ zs" by (auto simp: prefix_def)
  then have "xs = take (length xs) [0..<n]" by simp
  moreover have "length xs \<le> n" using z by (metis length_append length_upt le_add1 diff_zero)
  ultimately show ?thesis by (simp add: take_upt)
qed


section \<open>The segments of a run\<close>

lemma segments_from_snoc:
  "segments_from j (ws @ [w]) = segments_from j ws @ step_segment (j + length ws) w"
  by (induction ws arbitrary: j) auto

lemma finished_start: "finished 0 (greeting b)"
  unfolding finished_def by (rule exI [of _ b], rule exI [of _ "[]"]) simp

lemma inside_open:
  assumes "finished k l" and "j = Suc k" and "n = totalSteps" and "t = title (Suc k)" and "P w"
  shows "inside k P (l @ Header j n t # w)"
proof -
  from assms(1) obtain b ws where
    l: "l = greeting b @ segments_from 1 ws" and k: "length ws = k" "list_all work_ok ws"
    unfolding finished_def by blast
  from l assms(2-4) have "l @ Header j n t # w = greeting b @ segments_from 1 ws
      @ Header (Suc k) totalSteps (title (Suc k)) # w" by simp
  with k assms(5) show ?thesis unfolding inside_def by blast
qed

lemma inside_more:
  assumes "inside k P l" and "\<And>w. P w \<Longrightarrow> Q (w @ v)"
  shows "inside k Q (l @ v)"
proof -
  from assms(1) obtain b ws w where
    l: "l = greeting b @ segments_from 1 ws @ Header (Suc k) totalSteps (title (Suc k)) # w"
    and k: "length ws = k" "list_all work_ok ws" and p: "P w"
    unfolding inside_def by blast
  from l have "l @ v = greeting b @ segments_from 1 ws
      @ Header (Suc k) totalSteps (title (Suc k)) # (w @ v)" by simp
  with k assms(2) [OF p] show ?thesis unfolding inside_def by blast
qed

lemma inside_close:
  assumes "inside k work_ok l" and "k' = Suc k"
  shows "finished k' (l @ [Motivation, BarUpdate k'])"
proof -
  from assms(1) obtain b ws w where
    l: "l = greeting b @ segments_from 1 ws @ Header (Suc k) totalSteps (title (Suc k)) # w"
    and k: "length ws = k" "list_all work_ok ws" and p: "work_ok w"
    unfolding inside_def by blast
  have "l @ [Motivation, BarUpdate (Suc k)] = greeting b @ segments_from 1 (ws @ [w])"
    using l k(1) by (simp add: segments_from_snoc step_segment_def)
  moreover have "length (ws @ [w]) = Suc k" "list_all work_ok (ws @ [w])"
    using k p by simp_all
  ultimately show ?thesis unfolding finished_def assms(2) by blast
qed


lemma work_ok_simps [simp]:
  "work_ok []" "work_ok (e # w) = (\<not> is_mark e \<and> ok_event e \<and> work_ok w)"
  "work_ok (u @ v) = (work_ok u \<and> work_ok v)"
  by (auto simp: work_ok_def)

lemma unmarked_simps [simp]:
  "unmarked []" "unmarked (e # w) = (\<not> is_mark e \<and> unmarked w)"
  "unmarked (u @ v) = (unmarked u \<and> unmarked v)"
  by (auto simp: unmarked_def)

lemma work_ok_unmarked: "work_ok w \<Longrightarrow> unmarked w"
  by (auto simp: work_ok_def unmarked_def list_all_iff)

lemma stuckI: "inside k unmarked (log s) \<Longrightarrow> k < 10 \<Longrightarrow> stuck x s"
  by (auto simp: stuck_def)

lemma closesD: "closes k rest \<Longrightarrow> \<exists>w. rest = w @ [Motivation, BarUpdate k] \<and> work_ok w"
proof (induction rest)
  case Nil
  then show ?case by simp
next
  case (Cons e rest)
  from Cons.prems consider "e = Motivation \<and> rest = [BarUpdate k]"
    | "\<not> is_mark e \<and> ok_event e \<and> closes k rest" by auto
  then show ?case
  proof cases
    case 1
    then have "e # rest = [] @ [Motivation, BarUpdate k] \<and> work_ok []" by simp
    then show ?thesis by blast
  next
    case 2
    with Cons.IH obtain w where "rest = w @ [Motivation, BarUpdate k]" "work_ok w" by blast
    with 2 have "e # rest = (e # w) @ [Motivation, BarUpdate k] \<and> work_ok (e # w)" by simp
    then show ?thesis by blast
  qed
qed

lemma opensD: "opens k P seg \<Longrightarrow> \<exists>w. seg = Header k totalSteps (title k) # w \<and> P w"
  by (cases "(k, P, seg)" rule: opens.cases) auto

lemma step_opened:
  assumes "finished k l" and "opens k' P seg" and "k' = Suc k"
  shows "inside k P (l @ seg)"
proof -
  from opensD [OF assms(2)] assms(3) obtain w where
    "seg = Header (Suc k) totalSteps (title (Suc k)) # w" "P w" by auto
  with inside_open [OF assms(1), of "Suc k" totalSteps "title (Suc k)" P w] show ?thesis
    by simp
qed

lemma step_closed:
  assumes "inside k work_ok l" and "closes k' t" and "k' = Suc k"
  shows "finished k' (l @ t)"
proof -
  from closesD [OF assms(2)] obtain w where t: "t = w @ [Motivation, BarUpdate k']"
    and w: "work_ok w" by blast
  have "inside k work_ok (l @ w)"
    by (rule inside_more [OF assms(1)]) (simp add: w)
  from inside_close [OF this assms(3)] t show ?thesis by simp
qed

lemma step_done:
  assumes "finished k l" and "opens k' (closes k') seg" and "k' = Suc k"
  shows "finished k' (l @ seg)"
proof -
  from opensD [OF assms(2)] obtain r where
    seg: "seg = Header k' totalSteps (title k') # r" and r: "closes k' r" by blast
  from closesD [OF r] obtain w where r': "r = w @ [Motivation, BarUpdate k']"
    and w: "work_ok w" by blast
  have "opens k' work_ok (Header k' totalSteps (title k') # w)" using w by simp
  from step_opened [OF assms(1) this assms(3)]
  have "inside k work_ok (l @ Header k' totalSteps (title k') # w)" .
  from inside_close [OF this assms(3)] seg r' show ?thesis by simp
qed

lemma step_stuck:
  assumes "finished k l" and "opens k' unmarked seg" and "k' = Suc k" and "k < 10"
  shows "\<exists>j<10. inside j unmarked (l @ seg)"
  using step_opened [OF assms(1-3)] assms(4) by blast

lemma step_stuck_later:
  assumes "inside k work_ok l" and "unmarked v" and "k < 10"
  shows "\<exists>j<10. inside j unmarked (l @ v)"
proof -
  have "inside k unmarked (l @ v)"
    by (rule inside_more [OF assms(1)]) (simp add: assms(2) work_ok_unmarked)
  with assms(3) show ?thesis by blast
qed

lemma title_simps [simp]:
  "title (Suc 0) = ''Cleaning composer.lock''"
  "title 2 = ''Installing Composer dependencies (no-scripts)''"
  "title (Suc (Suc 0)) = ''Installing Composer dependencies (no-scripts)''"
  "title 3 = ''Setting up .env''"
  "title 4 = ''Re-running Composer install (with scripts)''"
  "title 5 = ''Cleaning public/storage''"
  "title 6 = ''Creating storage symlink''"
  "title 7 = ''Database migration''"
  "title 8 = ''Caching icons''"
  "title 9 = ''Frontend asset build''"
  "title 10 = ''Production optimizations''"
  by (simp_all add: title_def titles_def)

lemma finished_greeting:
  "finished 0 [Clear, Spawn banner b, Say Title, Say Welcome, BarStart 11 0]"
  using finished_start [of b] by (simp add: greeting_def totalSteps_def)

lemma start_steps: "holds (\<lambda>s. log s = []) (start W) (at_step 0) F"
  by (simp add: holds_def at_step_def start_def displayBanner_def act_defs Let_def
      finished_greeting)

lemmas seg_defs = holds_def at_step_def stuck_def

lemma step1_steps: "holds (at_step 0) step1 (at_step 1) stuck"
  by (auto simp: seg_defs step1_def act_defs Let_def intro!: step_done [where k = 0])

lemma step2_steps: "holds (at_step 1) (step2 W) (at_step 2) stuck"
  by (auto simp: seg_defs step2_def runCommand_def act_defs Let_def
      intro!: step_done [where k = 1] step_stuck [where k = 1])

lemma step3_env_steps: "holds (at_step 2) (step3_env W) (in_step 2) stuck"
  by (auto simp: seg_defs in_step_def step3_env_def key_generate_def runCommand_def act_defs
      Let_def split: sum.splits
      intro!: step_opened [where k = 2] step_stuck [where k = 2])

lemma step3_check_steps: "holds (in_step 2) (step3_check W) (at_step 3) stuck"
  by (auto simp: seg_defs in_step_def step3_check_def checkEnvironment_def
      production_warning_def act_defs Let_def
      intro!: step_closed [where k = 2] step_stuck_later [where k = 2])

lemma step4_steps: "holds (at_step 3) (step4 W) (at_step 4) stuck"
  by (auto simp: seg_defs step4_def runCommand_def act_defs Let_def
      intro!: step_done [where k = 3] step_stuck [where k = 3])

lemma step5_steps: "holds (at_step 4) step5 (at_step 5) stuck"
  by (auto simp: seg_defs step5_def act_defs Let_def split: sum.splits
      intro!: step_done [where k = 4] step_stuck [where k = 4])

lemma step6_steps: "holds (at_step 5) (step6 W) (at_step 6) stuck"
  by (auto simp: seg_defs step6_def runCommand_def act_defs Let_def
      intro!: step_done [where k = 5] step_stuck [where k = 5])

lemma step7_steps: "holds (at_step 6) (step7 W) (at_step 7) stuck"
  by (auto simp: seg_defs step7_def migrate_def runCommand_def act_defs Let_def
      intro!: step_done [where k = 6] step_stuck [where k = 6])

lemma step8_steps: "holds (at_step 7) (step8 W) (at_step 8) stuck"
  by (auto simp: seg_defs step8_def runCommand_def act_defs Let_def
      intro!: step_done [where k = 7] step_stuck [where k = 7])

lemma step9_steps: "holds (at_step 8) (step9 W) (at_step 9) stuck"
  by (auto simp: seg_defs step9_def runCommand_def act_defs Let_def
      intro!: step_done [where k = 8] step_stuck [where k = 8])

lemma step10_steps: "holds (at_step 9) (step10 W) (at_step 10) stuck"
  by (auto simp: seg_defs step10_def prodCommands_def runCommand_def act_defs Let_def
      intro!: step_done [where k = 9] step_stuck [where k = 9])


lemma finished_closing:
  assumes "finished 10 l" and "\<exists>b'. c = closing b'"
  shows "done_log (l @ c)"
proof -
  from assms obtain b ws b' where "l = greeting b @ segments_from 1 ws" "c = closing b'"
    and k: "length ws = 10" "list_all work_ok ws"
    unfolding finished_def by blast
  then have "l @ c = greeting b @ segments_from 1 ws @ closing b'" by simp
  with k show ?thesis unfolding done_log_def by blast
qed

lemma complete_steps: "holds (at_step 10) (complete W) (\<lambda>s. done_log (log s)) stuck"
  by (auto simp: seg_defs complete_def displayBanner_def act_defs Let_def closing_def
      intro!: finished_closing)

lemma main_steps:
  "holds (\<lambda>s. log s = []) (seq (before_check W @ from_check W)) (\<lambda>s. done_log (log s)) stuck"
  unfolding before_check_def from_check_def append.simps
  by (intro holds_seq_Cons [OF start_steps] holds_seq_Cons [OF step1_steps]
      holds_seq_Cons [OF step2_steps] holds_seq_Cons [OF step3_env_steps]
      holds_seq_Cons [OF step3_check_steps] holds_seq_Cons [OF step4_steps]
      holds_seq_Cons [OF step5_steps] holds_seq_Cons [OF step6_steps]
      holds_seq_Cons [OF step7_steps] holds_seq_Cons [OF step8_steps]
      holds_seq_Cons [OF step9_steps] holds_seq_Cons [OF step10_steps]
      holds_seq_Cons [OF complete_steps] holds_seq_Nil)

lemma main_structure:
  "case main W root env of
     Return x s \<Rightarrow> done_log (log s)
   | Stop k s \<Rightarrow> (\<exists>j<10. inside j unmarked (log s))"
proof -
  have "log (initial root env) = []" by (simp add: initial_def)
  with main_steps [of W] show ?thesis
    unfolding holds_def main_def stuck_def by (auto split: outcome.splits)
qed

lemma progress_values_append:
  "progress_values (a @ b) = progress_values a @ progress_values b"
  by (simp add: progress_values_def)

lemma progress_values_unmarked: "unmarked w \<Longrightarrow> progress_values w = []"
proof (induction w)
  case Nil
  show ?case by (simp add: progress_values_def)
next
  case (Cons e w)
  then show ?case by (cases e) (simp_all add: progress_values_def)
qed

lemma progress_values_segment:
  "work_ok w \<Longrightarrow> progress_values (step_segment k w) = [k]"
  using progress_values_unmarked [OF work_ok_unmarked, of w]
  by (simp add: step_segment_def) (simp add: progress_values_def)

lemma progress_values_segments:
  "list_all work_ok ws \<Longrightarrow> progress_values (segments_from j ws) = [j..<j + length ws]"
proof (induction ws arbitrary: j)
  case Nil
  show ?case by (simp add: progress_values_def)
next
  case (Cons w ws)
  then have "progress_values (segments_from (Suc j) ws) = [Suc j..<Suc j + length ws]"
    and w: "work_ok w" by simp_all
  then have "progress_values (segments_from j (w # ws)) = j # [Suc j..<Suc j + length ws]"
    by (simp only: segments_from.simps progress_values_append progress_values_segment
        append.simps)
  also have "j # [Suc j..<Suc j + length ws] = [j..<j + length (w # ws)]"
    using upt_conv_Cons [of j "Suc (j + length ws)"] by (simp del: upt_Suc)
  finally show ?case .
qed

lemma progress_values_greeting: "progress_values (greeting b) = [0]"
  by (simp add: progress_values_def greeting_def)

lemma progress_values_closing: "progress_values (closing b) = []"
  by (simp add: progress_values_def closing_def)

lemma progress_values_run:
  assumes "list_all work_ok ws" and "progress_values rest = []"
  shows "progress_values (greeting b @ segments_from 1 ws @ rest) = [0..<Suc (length ws)]"
proof -
  have "progress_values (greeting b @ segments_from 1 ws @ rest) = 0 # [1..<1 + length ws]"
    by (simp only: progress_values_append progress_values_greeting assms(2)
        progress_values_segments [OF assms(1)] append.simps append_Nil2)
  also have "0 # [1..<1 + length ws] = [0..<Suc (length ws)]"
    using upt_conv_Cons [of 0 "Suc (length ws)"] by (simp del: upt_Suc)
  finally show ?thesis .
qed

lemma completed_marks: "main W root env = Return x s \<Longrightarrow> marks (log s) = schedule"
  using main_cases [of W root env] by auto

section \<open>A failed command along a run\<close>

lemma holds_seq_all:
  "(\<And>a. a \<in> set as \<Longrightarrow> holds I a I F) \<Longrightarrow> holds I (seq as) I F"
proof (induction as)
  case Nil
  show ?case by (rule holds_seq_Nil)
next
  case (Cons a as)
  show ?case
    by (rule holds_seq_Cons [where Q = I]) (simp_all add: Cons)
qed

lemmas ff_defs = holds_def no_failure_def fail_fast_def failure_tail_def

lemma start_ff: "holds no_failure (start W) no_failure fail_fast"
  by (simp add: ff_defs start_def displayBanner_def act_defs Let_def)

lemma step1_ff: "holds no_failure step1 no_failure fail_fast"
  by (simp add: ff_defs step1_def act_defs Let_def)

lemma step2_ff: "holds no_failure (step2 W) no_failure fail_fast"
  by (simp add: ff_defs step2_def runCommand_def act_defs Let_def)

lemma step3_env_ff: "holds no_failure (step3_env W) no_failure fail_fast"
  by (simp add: ff_defs step3_env_def key_generate_def runCommand_def act_defs Let_def
      split: sum.splits)

lemma step3_check_ff: "holds no_failure (step3_check W) no_failure fail_fast"
  by (simp add: ff_defs step3_check_def checkEnvironment_def production_warning_def act_defs
      Let_def)

lemma step4_ff: "holds no_failure (step4 W) no_failure fail_fast"
  by (simp add: ff_defs step4_def runCommand_def act_defs Let_def)

lemma step5_ff: "holds no_failure step5 no_failure fail_fast"
  by (simp add: ff_defs step5_def act_defs Let_def split: sum.splits)

lemma step6_ff: "holds no_failure (step6 W) no_failure fail_fast"
  by (simp add: ff_defs step6_def runCommand_def act_defs Let_def)

lemma step7_ff: "holds no_failure (step7 W) no_failure fail_fast"
  by (simp add: ff_defs step7_def migrate_def runCommand_def act_defs Let_def)

lemma step8_ff: "holds no_failure (step8 W) no_failure fail_fast"
  by (simp add: ff_defs step8_def runCommand_def act_defs Let_def)

lemma step9_ff: "holds no_failure (step9 W) no_failure fail_fast"
  by (simp add: ff_defs step9_def runCommand_def act_defs Let_def)

lemma step10_ff: "holds no_failure (step10 W) no_failure fail_fast"
  by (simp add: ff_defs step10_def prodCommands_def runCommand_def act_defs Let_def)

lemma complete_ff: "holds no_failure (complete W) no_failure fail_fast"
  by (simp add: ff_defs complete_def displayBanner_def act_defs Let_def)

lemma main_ff:
  "holds no_failure (seq (before_check W @ from_check W)) no_failure fail_fast"
  by (rule holds_seq_all)
     (auto simp: before_check_def from_check_def start_ff step1_ff step2_ff step3_env_ff
       step3_check_ff step4_ff step5_ff step6_ff step7_ff step8_ff step9_ff step10_ff
       complete_ff)

lemma main_fail_fast:
  "case main W root env of
     Return x s \<Rightarrow> list_all ok_event (log s)
   | Stop k s \<Rightarrow> list_all ok_event (log s) \<or> (k = Exited 1 \<and> failure_tail (log s))"
proof -
  have "no_failure (initial root env)" by (simp add: no_failure_def initial_def)
  with main_ff [of W] show ?thesis
    unfolding holds_def main_def
    by (auto simp: no_failure_def fail_fast_def split: outcome.splits)
qed

lemma failure_tailD:
  assumes "failure_tail l"
  shows "\<exists>r sp c lab. l = r @ [Spin sp, Spawn c False, Failed lab (fst c)] \<and>
           list_all ok_event r"
proof -
  from assms have "failure_rev (rev l)" by (simp add: failure_tail_def)
  then obtain lab x c sp r where
    r: "rev l = Failed lab x # Spawn c False # Spin sp # r" and x: "x = fst c"
    and ok: "list_all ok_event r"
    by (rule failure_rev.elims(2)) auto
  from r have "l = rev (Failed lab x # Spawn c False # Spin sp # r)" by (metis rev_rev_ident)
  then have "l = rev r @ [Spin sp, Spawn c False, Failed lab (fst c)]" using x by simp
  moreover have "list_all ok_event (rev r)" using ok by (simp add: list_all_iff)
  ultimately show ?thesis by blast
qed

lemma failed_spawn_position:
  assumes "r @ [Spin sp, Spawn c' False, Failed lab x] = before @ Spawn c False # after"
    and "list_all ok_event r" and "c \<noteq> banner"
  shows "after = [Failed lab x] \<and> c = c'"
proof -
  have notin: "Spawn c False \<notin> set r"
    using assms(2,3) by (auto simp: list_all_iff)
  from assms(1) show ?thesis
    using notin
    by (auto simp: append_eq_append_conv2 append_eq_Cons_conv Cons_eq_append_conv)
qed

section \<open>The commands spawned before the environment check\<close>

lemma start_spawned:
  "holds (\<lambda>s. log s = []) (start W) (\<lambda>s. spawned (log s) = [banner]) (\<lambda>k s. True)"
  by (simp add: holds_def start_def displayBanner_def act_defs Let_def)

lemma step1_spawned:
  "holds (\<lambda>s. spawned (log s) = [banner]) step1 (\<lambda>s. spawned (log s) = [banner])
     (\<lambda>k s. True)"
  by (simp add: holds_def step1_def act_defs Let_def)

lemma step2_spawned:
  "holds (\<lambda>s. spawned (log s) = [banner]) (step2 W)
     (\<lambda>s. spawned (log s) = [banner, composer_install_no_scripts]) (\<lambda>k s. True)"
  by (simp add: holds_def step2_def runCommand_def composer_install_no_scripts_def act_defs
      Let_def)

lemma step3_env_spawned:
  "holds (\<lambda>s. spawned (log s) = [banner, composer_install_no_scripts]) (step3_env W)
     (\<lambda>s. spawned (log s) = [banner, composer_install_no_scripts] \<or>
          spawned (log s) = [banner, composer_install_no_scripts, key_generate_command])
     (\<lambda>k s. True)"
  by (simp add: holds_def step3_env_def key_generate_def runCommand_def
      key_generate_command_def act_defs Let_def split: sum.splits)

lemma before_check_spawned:
  "holds (\<lambda>s. log s = []) (seq (before_check W))
     (\<lambda>s. spawned (log s) = [banner, composer_install_no_scripts] \<or>
          spawned (log s) = [banner, composer_install_no_scripts, key_generate_command])
     (\<lambda>k s. True)"
  unfolding before_check_def
  by (intro holds_seq_Cons [OF start_spawned] holds_seq_Cons [OF step1_spawned]
      holds_seq_Cons [OF step2_spawned] holds_seq_Cons [OF step3_env_spawned] holds_seq_Nil)

section \<open>The properties\<close>

text \<open>
  Claim C1, as amended. The environment check is the second half of step 3 (the source says
  so: "Environment check after .env is created/verified"). A run that reaches it with
  \<^verbatim>\<open>APP_ENV\<close> resolving to \<^verbatim>\<open>production\<close> (the process environment first, then
  what \<^verbatim>\<open>dotenv\<close> loads from \<^verbatim>\<open>.env\<close>) prints the warning and exits with status 1. Nothing
  runs after the check: the working directory at exit is the one the check found, so there is
  no second Composer install, no storage cleanup and no later command. What ran before it is
  the banner, the first Composer install and, when step 3 asked for it, key generation.
\<close>

theorem production_stops_at_check:
  assumes "seq (before_check W) (initial root env) = Return () s1"
    and "app_env (load_env W s1) = lit ''production''"
  shows "main W root env =
           Stop (Exited 1) (s1\<lparr>penv := load_env W s1, log := log s1 @ production_warning\<rparr>)
     \<and> exit_status (main W root env) = 1
     \<and> (spawned (log s1) = [banner, composer_install_no_scripts] \<or>
        spawned (log s1) = [banner, composer_install_no_scripts, key_generate_command])"
proof -
  have m: "main W root env =
      Stop (Exited 1) (s1\<lparr>penv := load_env W s1, log := log s1 @ production_warning\<rparr>)"
    using assms
    by (simp add: main_def seq_append from_check_def step3_check_def checkEnvironment_def
        bind_def Let_def)
  have "log (initial root env) = []" by (simp add: initial_def)
  with before_check_spawned [of W] assms(1)
  have "spawned (log s1) = [banner, composer_install_no_scripts] \<or>
        spawned (log s1) = [banner, composer_install_no_scripts, key_generate_command]"
    unfolding holds_def by (auto split: outcome.splits)
  with m show ?thesis by simp
qed

theorem production_stops_at_check_witness:
  "(\<exists>s1. seq (before_check quiet) (initial production_template []) = Return () s1
         \<and> app_env (load_env quiet s1) = lit ''production'')
   \<and> exit_status (main quiet production_template []) = 1"
proof -
  have "case seq (before_check quiet) (initial production_template []) of
          Return x s \<Rightarrow> app_env (load_env quiet s) = lit ''production''
        | Stop k s \<Rightarrow> False"
    by code_simp
  then obtain s1 where
    s: "seq (before_check quiet) (initial production_template []) = Return () s1"
    and p: "app_env (load_env quiet s1) = lit ''production''"
    by (cases "seq (before_check quiet) (initial production_template [])") auto
  from production_stops_at_check [OF s p] s p show ?thesis by blast
qed

text \<open>
  Claim C1 as it was stated fails. The working directory holds nothing but a template that
  says \<^verbatim>\<open>APP_ENV=production\<close>, and every command succeeds. The run does exit with
  status 1, but by then it has installed the dependencies, copied the template to
  \<^verbatim>\<open>.env\<close> and generated a key.
\<close>

theorem production_check_comes_late:
  "app_env (plain_dotenv (lit ''APP_ENV=production'') []) = lit ''production''
   \<and> exit_status (main quiet production_template []) = 1
   \<and> spawned (log (final (main quiet production_template [])))
       = [banner, composer_install_no_scripts, key_generate_command]
   \<and> lookup production_template [''.env''] = None
   \<and> lookup (fs (final (main quiet production_template []))) [''.env'']
       = Some (File (lit ''APP_ENV=production''))"
proof -
  have 1: "app_env (plain_dotenv (lit ''APP_ENV=production'') []) = lit ''production''"
    by code_simp
  have 2: "exit_status (main quiet production_template []) = 1" by code_simp
  have 3: "spawned (log (final (main quiet production_template [])))
       = [banner, composer_install_no_scripts, key_generate_command]" by code_simp
  have 4: "lookup production_template [''.env''] = None" by code_simp
  have 5: "lookup (fs (final (main quiet production_template []))) [''.env'']
       = Some (File (lit ''APP_ENV=production''))" by code_simp
  from 1 2 3 4 5 show ?thesis by blast
qed

text \<open>
  Claim C2. First for any sequence of actions: when the actions before a
  \<^verbatim>\<open>runCommand\<close> have gone through and its command fails (a non-zero exit code and a
  failed spawn both reject the promise), the whole sequence stops with exit status 1; the
  command was spawned once, the failure report is the last thing logged, and the actions
  after it play no part. Then for \<^verbatim>\<open>main\<close>: wherever a command other than the banner
  fails in a run, the only event after it is its failure report, and the process exits with
  status 1.
\<close>

theorem failed_command_ends_the_run:
  "(seq pre s = Return () s1 \<and>
      \<not> fst (execa W (length (spawned (log s1))) (c, args) (fs s1)) \<longrightarrow>
      seq (pre @ runCommand W c args lab txt # post) s =
        Stop (Exited 1) (s1\<lparr>fs := snd (execa W (length (spawned (log s1))) (c, args) (fs s1)),
          log := log s1 @ [Spin (if txt = [] then Running lab c else Text txt),
                           Spawn (c, args) False, Failed lab c]\<rparr>))
 \<and> (log (final (main W root env)) = before @ Spawn cmd False # after \<and> cmd \<noteq> banner \<longrightarrow>
      (\<exists>l. after = [Failed l (fst cmd)]) \<and> (\<exists>s'. main W root env = Stop (Exited 1) s')
      \<and> exit_status (main W root env) = 1)"
proof -
  have generic: "seq (pre @ runCommand W c args lab txt # post) s =
        Stop (Exited 1) (s1\<lparr>fs := snd (execa W (length (spawned (log s1))) (c, args) (fs s1)),
          log := log s1 @ [Spin (if txt = [] then Running lab c else Text txt),
                           Spawn (c, args) False, Failed lab c]\<rparr>)"
    if "seq pre s = Return () s1 \<and>
      \<not> fst (execa W (length (spawned (log s1))) (c, args) (fs s1))"
    using that by (simp add: seq_append runCommand_def Let_def)
  have in_main: "(\<exists>l. after = [Failed l (fst cmd)]) \<and>
      (\<exists>s'. main W root env = Stop (Exited 1) s') \<and> exit_status (main W root env) = 1"
    if a: "log (final (main W root env)) = before @ Spawn cmd False # after \<and> cmd \<noteq> banner"
  proof -
    from a have bad: "\<not> list_all ok_event (log (final (main W root env)))"
      by (simp add: list_all_iff)
    from main_fail_fast [of W root env] bad obtain s' where
      st: "main W root env = Stop (Exited 1) s'" and ft: "failure_tail (log s')"
      by (cases "main W root env") auto
    from failure_tailD [OF ft] obtain r sp c' l where
      l: "log s' = r @ [Spin sp, Spawn c' False, Failed l (fst c')]"
      and ok: "list_all ok_event r"
      by blast
    from a st l
    have "r @ [Spin sp, Spawn c' False, Failed l (fst c')] = before @ Spawn cmd False # after"
      by simp
    from failed_spawn_position [OF this ok] a
    have "after = [Failed l (fst c')]" "cmd = c'" by auto
    with st show ?thesis by auto
  qed
  from generic in_main show ?thesis by blast
qed

theorem failed_command_ends_the_run_witness:
  "seq [] (initial fresh []) = Return () (initial fresh [])
   \<and> \<not> fst (execa broken (length (spawned (log (initial fresh []))))
              (''composer'', [''install'', ''--no-interaction'', ''--no-ansi''])
              (fs (initial fresh [])))
   \<and> seq ([] @ runCommand broken ''composer'' [''install'', ''--no-interaction'', ''--no-ansi'']
              (4, 11) ''Running composer scripts...'' # [step5, step6 broken]) (initial fresh [])
       = Stop (Exited 1) \<lparr>fs = fresh, penv = [], step = 0,
           log = [Spin (Text ''Running composer scripts...''),
                  Spawn (''composer'', [''install'', ''--no-interaction'', ''--no-ansi'']) False,
                  Failed (4, 11) ''composer'']\<rparr>
   \<and> log (final (main broken fresh []))
       = take 26 (log (final (main broken fresh []))) @ Spawn composer_install False
           # drop 27 (log (final (main broken fresh [])))
   \<and> composer_install \<noteq> banner
   \<and> drop 27 (log (final (main broken fresh []))) = [Failed (4, 11) ''composer'']
   \<and> exit_status (main broken fresh []) = 1"
proof -
  let ?c = "''composer''" and ?a = "[''install'', ''--no-interaction'', ''--no-ansi'']"
  let ?l = "log (final (main broken fresh []))"
  have a: "seq [] (initial fresh []) = Return () (initial fresh []) \<and>
      \<not> fst (execa broken (length (spawned (log (initial fresh [])))) (?c, ?a)
             (fs (initial fresh [])))"
    by (simp add: broken_def composer_install_def)
  have b: "?l = take 26 ?l @ Spawn composer_install False # drop 27 ?l \<and>
      composer_install \<noteq> banner"
    by code_simp
  have d: "drop 27 ?l = [Failed (4, 11) ''composer'']"
    by code_simp
  note t = failed_command_ends_the_run [of "[]" "initial fresh []" "initial fresh []" broken
      ?c ?a "(4, 11)" "''Running composer scripts...''" "[step5, step6 broken]" fresh "[]"
      "take 26 ?l" composer_install "drop 27 ?l"]
  from t a b have 1: "seq ([] @ runCommand broken ?c ?a (4, 11) ''Running composer scripts...''
              # [step5, step6 broken]) (initial fresh [])
       = Stop (Exited 1) \<lparr>fs = fresh, penv = [], step = 0,
           log = [Spin (Text ''Running composer scripts...''), Spawn (?c, ?a) False,
                  Failed (4, 11) ''composer'']\<rparr>"
    by (simp add: initial_def broken_def)
  from t b have 2: "exit_status (main broken fresh []) = 1" by blast
  from a b d 1 2 show ?thesis by blast
qed

text \<open>
  Claim C3. The source sets \<^verbatim>\<open>totalSteps = 11\<close> and calls its last block
  "Step 11: Complete", but that block stops the bar without a report. So every run that
  completes exits with status 0, as the claim says, while the values given to the progress
  bar are 0 to 10: the last one is 10, and 11 is never reported.
\<close>

theorem completed_run_reports_ten:
  assumes "main W root env = Return x s"
  shows "exit_status (main W root env) = 0 \<and> progress_values (log s) = [0..<11]
     \<and> last (progress_values (log s)) = 10 \<and> totalSteps \<notin> set (progress_values (log s))"
proof -
  from completed_marks [OF assms] have "progress_values (marks (log s)) = [0..<11]"
    by (simp add: progress_values_schedule)
  then have p: "progress_values (log s) = [0..<11]" by (simp add: progress_values_marks)
  have "last [0..<11] = (10::nat)" by (simp add: upt_rec)
  with p assms show ?thesis by (simp add: totalSteps_def)
qed

theorem completed_run_reports_ten_witness:
  "(\<exists>s. main quiet fresh [] = Return () s) \<and> exit_status (main quiet fresh []) = 0
   \<and> progress_values (log (final (main quiet fresh []))) = [0..<11]
   \<and> last (progress_values (log (final (main quiet fresh [])))) = 10
   \<and> totalSteps \<notin> set (progress_values (log (final (main quiet fresh []))))"
proof -
  have "case main quiet fresh [] of Return x s \<Rightarrow> True | Stop k s \<Rightarrow> False"
    by code_simp
  then obtain s where s: "main quiet fresh [] = Return () s"
    by (cases "main quiet fresh []") auto
  from completed_run_reports_ten [OF s] s show ?thesis by (simp add: totalSteps_def)
qed

text \<open>
  Claim C4. The working directory holds the template and nothing else, every prompt is
  answered with its skip entry, every command exits with code zero and leaves the directory
  alone (as the double of a test would), and \<^verbatim>\<open>APP_ENV\<close> does not resolve to
  \<^verbatim>\<open>production\<close>. Then the run completes with exit status 0, the directory ends with
  the template copied to \<^verbatim>\<open>.env\<close>, and the commands spawned are exactly the banner, the
  first Composer install, key generation (once), the second Composer install, the storage
  link (once), the icon cache and the banner again: no migration, build or optimization
  command is among them.
\<close>

theorem all_skipped_scenario:
  assumes "\<forall>n c r. execa W n c r = (True, r)"
    and "migrationOption W = ''none''" and "\<not> buildAssets W" and "\<not> runProd W"
    and "app_env (dotenv W t env) \<noteq> lit ''production''"
  shows "\<exists>s. main W (Dir [(''.env.example'', File t)]) env = Return () s \<and>
     exit_status (main W (Dir [(''.env.example'', File t)]) env) = 0 \<and>
     fs s = Dir [(''.env.example'', File t), (''.env'', File t)] \<and>
     spawned (log s) = [banner, composer_install_no_scripts, key_generate_command,
                        composer_install, storage_link, icon_cache, banner]"
proof -
  have [simp]: "\<And>n c r. execa W n c r = (True, r)" using assms(1) by blast
  show ?thesis
    using assms(2-)
    by (simp add: main_def before_check_def from_check_def initial_def step_defs
        key_generate_def runCommand_def displayBanner_def migrate_def checkEnvironment_def
        load_env_def existsSync_def readFileSync_def copyFileSync_def act_defs Let_def
        command_defs)
qed

theorem all_skipped_scenario_witness:
  "(\<forall>n c r. execa quiet n c r = (True, r)) \<and> migrationOption quiet = ''none''
   \<and> \<not> buildAssets quiet \<and> \<not> runProd quiet
   \<and> app_env (dotenv quiet (lit ''APP_ENV=local'') []) \<noteq> lit ''production''
   \<and> (\<exists>s. main quiet fresh [] = Return () s \<and>
        exit_status (main quiet fresh []) = 0 \<and>
        fs s = Dir [(''.env.example'', File (lit ''APP_ENV=local'')),
                    (''.env'', File (lit ''APP_ENV=local''))] \<and>
        spawned (log s) = [banner, composer_install_no_scripts, key_generate_command,
                           composer_install, storage_link, icon_cache, banner])"
proof -
  have a: "\<forall>n c r. execa quiet n c r = (True, r)" by (simp add: quiet_def)
  have b: "migrationOption quiet = ''none''" "\<not> buildAssets quiet" "\<not> runProd quiet"
    by (simp_all add: quiet_def)
  have "app_env (plain_dotenv (lit ''APP_ENV=local'') []) \<noteq> lit ''production''"
    by code_simp
  then have c: "app_env (dotenv quiet (lit ''APP_ENV=local'') []) \<noteq> lit ''production''"
    by (simp add: quiet_def)
  from all_skipped_scenario [OF a b c] a b c show ?thesis
    unfolding fresh_def by blast
qed

text \<open>
  Claim C5. The first half of step 3. When \<^verbatim>\<open>.env\<close> exists the step copies nothing: the
  working directory it leaves is the one it found, or the one that key generation made of
  the one it found. When \<^verbatim>\<open>.env\<close> is absent and the template is a regular file, the
  step copies the template to \<^verbatim>\<open>.env\<close>, and the directory handed to key generation has
  the content of the template there.
\<close>

theorem env_file_copied_only_when_absent:
  "(existsSync (fs s) [''.env''] \<longrightarrow>
      fs (final (step3_env W s)) = fs s \<or>
      fs (final (step3_env W s))
        = snd (execa W (length (spawned (log s))) key_generate_command (fs s)))
 \<and> (\<not> existsSync (fs s) [''.env''] \<and> lookup (fs s) [''.env.example''] = Some (File t) \<longrightarrow>
      (\<exists>r. copyFileSync (fs s) [''.env.example''] [''.env''] = Inr r \<and>
           lookup r [''.env''] = Some (File t) \<and>
           fs (final (step3_env W s))
             = snd (execa W (length (spawned (log s))) key_generate_command r)))"
proof -
  have present: "fs (final (step3_env W s)) = fs s \<or>
      fs (final (step3_env W s))
        = snd (execa W (length (spawned (log s))) key_generate_command (fs s))"
    if "existsSync (fs s) [''.env'']"
    using that
    by (simp add: step3_env_def key_generate_def key_generate_command_def runCommand_def
        act_defs Let_def split: sum.splits)
  have absent: "\<exists>r. copyFileSync (fs s) [''.env.example''] [''.env''] = Inr r \<and>
           lookup r [''.env''] = Some (File t) \<and>
           fs (final (step3_env W s))
             = snd (execa W (length (spawned (log s))) key_generate_command r)"
    if a: "\<not> existsSync (fs s) [''.env''] \<and> lookup (fs s) [''.env.example''] = Some (File t)"
  proof -
    from a obtain r where r: "copyFileSync (fs s) [''.env.example''] [''.env''] = Inr r"
      "lookup r [''.env''] = Some (File t)"
      using copy_template [of "fs s" t] by (auto simp: existsSync_def)
    with a have "fs (final (step3_env W s))
        = snd (execa W (length (spawned (log s))) key_generate_command r)"
      by (simp add: step3_env_def key_generate_def key_generate_command_def runCommand_def
          act_defs Let_def)
    with r show ?thesis by blast
  qed
  from present absent show ?thesis by blast
qed

theorem env_file_copied_only_when_absent_witness:
  "existsSync configured [''.env'']
   \<and> fs (final (step3_env quiet (initial configured []))) = configured
   \<and> \<not> existsSync fresh [''.env'']
   \<and> lookup fresh [''.env.example''] = Some (File (lit ''APP_ENV=local''))
   \<and> lookup (fs (final (step3_env quiet (initial fresh [])))) [''.env'']
       = Some (File (lit ''APP_ENV=local''))"
proof -
  have q: "\<And>n c r. execa quiet n c r = (True, r)" by (simp add: quiet_def)
  have a: "existsSync (fs (initial configured [])) [''.env'']"
    by (simp add: initial_def configured_def existsSync_def)
  have b: "\<not> existsSync (fs (initial fresh [])) [''.env''] \<and>
      lookup (fs (initial fresh [])) [''.env.example''] = Some (File (lit ''APP_ENV=local''))"
    by (simp add: initial_def fresh_def existsSync_def)
  note t = env_file_copied_only_when_absent
  from t [of "initial configured []" quiet] a
  have 1: "fs (final (step3_env quiet (initial configured []))) = configured"
    by (simp add: q initial_def)
  from t [of "initial fresh []" quiet "lit ''APP_ENV=local''"] b
  have 2: "lookup (fs (final (step3_env quiet (initial fresh [])))) [''.env'']
       = Some (File (lit ''APP_ENV=local''))"
    by (auto simp: q)
  from a b 1 2 show ?thesis by (simp add: initial_def)
qed

text \<open>
  Claim C6. In each of the three choice steps the skip answer (\<^verbatim>\<open>none\<close> for the
  migration, \<^verbatim>\<open>false\<close> for the build and for the optimizations) makes the step print its
  header, the prompt and the skip line, then the encouragement and the progress report, and
  go on to the next step. The log of the step holds no spawned command, and the working
  directory is unchanged.
\<close>

theorem skip_runs_nothing:
  "(migrationOption W = ''none'' \<longrightarrow>
      step7 W s = Return () (s\<lparr>step := step s + 1,
        log := log s @ [Header (step s) 11 ''Database migration'', Prompt ''migrationOption'',
                        Say SkipMigration, Motivation, BarUpdate (step s)]\<rparr>))
 \<and> (\<not> buildAssets W \<longrightarrow>
      step9 W s = Return () (s\<lparr>step := step s + 1,
        log := log s @ [Header (step s) 11 ''Frontend asset build'', Prompt ''buildAssets'',
                        Say SkipBuild, Motivation, BarUpdate (step s)]\<rparr>))
 \<and> (\<not> runProd W \<longrightarrow>
      step10 W s = Return () (s\<lparr>step := step s + 1,
        log := log s @ [Header (step s) 11 ''Production optimizations'', Prompt ''runProd'',
                        Say SkipProd, Motivation, BarUpdate (step s)]\<rparr>))"
  by (simp add: step7_def step9_def step10_def migrate_def act_defs)

theorem skip_runs_nothing_witness:
  "migrationOption quiet = ''none'' \<and> \<not> buildAssets quiet \<and> \<not> runProd quiet
   \<and> step7 quiet (initial fresh []) = Return () \<lparr>fs = fresh, penv = [], step = 1,
        log = [Header 0 11 ''Database migration'', Prompt ''migrationOption'',
               Say SkipMigration, Motivation, BarUpdate 0]\<rparr>
   \<and> step9 quiet (initial fresh []) = Return () \<lparr>fs = fresh, penv = [], step = 1,
        log = [Header 0 11 ''Frontend asset build'', Prompt ''buildAssets'',
               Say SkipBuild, Motivation, BarUpdate 0]\<rparr>
   \<and> step10 quiet (initial fresh []) = Return () \<lparr>fs = fresh, penv = [], step = 1,
        log = [Header 0 11 ''Production optimizations'', Prompt ''runProd'',
               Say SkipProd, Motivation, BarUpdate 0]\<rparr>"
  using skip_runs_nothing [of quiet "initial fresh []"]
  by (simp add: quiet_def initial_def)

text \<open>
  Claim C7. In every run, whatever the commands and the answers do, the log is the greeting
  (the bar starts at 0), then one segment for each of the steps 1 to k in this order, then
  the rest. The segment of step j is its header, its work and exactly one progress report,
  of value j, which is the last event of the segment: the report comes after the step was
  completed or skipped, and no step is reported twice or left out. When the run completes,
  k is 10 and the rest is the closing block, which reports nothing. When the run stops, it
  stops inside step k + 1: the rest is the header of that step and events without a report,
  so a step that did not complete is not reported. Hence the reported values are
  0, 1, ..., k: they increase by one, never decrease and never skip a value.
\<close>

theorem progress_reported_after_each_step:
  "prefix (marks (log (final (main W root env)))) schedule \<and>
   (\<exists>b ws rest.
      log (final (main W root env)) = greeting b @ segments_from 1 ws @ rest
      \<and> list_all work_ok ws
      \<and> progress_values (log (final (main W root env))) = [0..<Suc (length ws)]
      \<and> (case main W root env of
            Return x s \<Rightarrow> length ws = 10 \<and> (\<exists>b'. rest = closing b')
          | Stop k s \<Rightarrow> length ws < 10 \<and>
              (\<exists>w. rest = Header (Suc (length ws)) totalSteps (title (Suc (length ws))) # w
                   \<and> unmarked w)))"
proof -
  let ?l = "log (final (main W root env))"
  let ?P = "\<lambda>b ws rest. ?l = greeting b @ segments_from 1 ws @ rest
      \<and> list_all work_ok ws
      \<and> progress_values ?l = [0..<Suc (length ws)]
      \<and> (case main W root env of
            Return x s \<Rightarrow> length ws = 10 \<and> (\<exists>b'. rest = closing b')
          | Stop k s \<Rightarrow> length ws < 10 \<and>
              (\<exists>w. rest = Header (Suc (length ws)) totalSteps (title (Suc (length ws))) # w
                   \<and> unmarked w))"
  have "length schedule = 21" by (simp add: schedule_def)
  then have "take 21 schedule = schedule" by simp
  then obtain n where "marks ?l = take n schedule"
    using main_cases [of W root env] by (metis final.simps)
  then have p: "prefix (marks ?l) schedule" by (simp add: take_is_prefix)
  have "\<exists>b ws rest. ?P b ws rest"
  proof (cases "main W root env")
    case (Return x s)
    with main_structure [of W root env] obtain b ws b' where
      l: "log s = greeting b @ segments_from 1 ws @ closing b'"
      and n: "length ws = 10" and ok: "list_all work_ok ws"
      by (auto simp: done_log_def)
    have pv: "progress_values (log s) = [0..<Suc (length ws)]"
      unfolding l by (rule progress_values_run [OF ok progress_values_closing])
    have e: "\<exists>b''. closing b' = closing b''" by blast
    have "?P b ws (closing b')"
      unfolding Return final.simps outcome.case using l n ok pv e by blast
    then show ?thesis by blast
  next
    case (Stop k s)
    with main_structure [of W root env] obtain j b ws w where
      l: "log s = greeting b @ segments_from 1 ws
           @ Header (Suc j) totalSteps (title (Suc j)) # w"
      and n: "length ws = j" "j < 10" and ok: "list_all work_ok ws" and w: "unmarked w"
      by (auto simp: inside_def)
    let ?rest = "Header (Suc (length ws)) totalSteps (title (Suc (length ws))) # w"
    have r: "progress_values ?rest = []"
      using progress_values_unmarked [OF w] by (simp add: progress_values_def)
    have l': "log s = greeting b @ segments_from 1 ws @ ?rest" using l n by simp
    have pv: "progress_values (log s) = [0..<Suc (length ws)]"
      unfolding l' by (rule progress_values_run [OF ok r])
    have e: "\<exists>v. ?rest = Header (Suc (length ws)) totalSteps (title (Suc (length ws))) # v
        \<and> unmarked v" using w by blast
    have "length ws < 10" using n by simp
    then have "?P b ws ?rest"
      unfolding Stop final.simps outcome.case using l' ok pv e by blast
    then show ?thesis by blast
  qed
  with p show ?thesis by blast
qed

theorem progress_reported_after_each_step_witness:
  "prefix (marks (log (final (main quiet fresh [])))) schedule \<and>
   (\<exists>b ws rest.
      log (final (main quiet fresh [])) = greeting b @ segments_from 1 ws @ rest
      \<and> list_all work_ok ws
      \<and> progress_values (log (final (main quiet fresh []))) = [0..<Suc (length ws)]
      \<and> (case main quiet fresh [] of
            Return x s \<Rightarrow> length ws = 10 \<and> (\<exists>b'. rest = closing b')
          | Stop k s \<Rightarrow> length ws < 10 \<and>
              (\<exists>w. rest = Header (Suc (length ws)) totalSteps (title (Suc (length ws))) # w
                   \<and> unmarked w)))"
  by (rule progress_reported_after_each_step)


text \<open>
  Claim C8. A path that does not exist is no error. \<^verbatim>\<open>deleteDirectory\<close> and
  \<^verbatim>\<open>deleteDirectoryContents\<close> return at once and leave the tree as it is. Step 1 without
  a \<^verbatim>\<open>composer.lock\<close> and step 5 without \<^verbatim>\<open>public/storage\<close> print their "not found"
  line, report progress and go on to the next step, the working directory unchanged.
\<close>

theorem absent_target_is_no_error:
  "(\<not> existsSync root dir \<longrightarrow>
      deleteDirectory root dir = Inr root \<and> deleteDirectoryContents root dir = Inr root)
 \<and> (\<not> existsSync (fs s) [''composer.lock''] \<longrightarrow>
      step1 s = Return () (s\<lparr>step := step s + 1,
        log := log s @ [Header (step s) 11 ''Cleaning composer.lock'', Say NoLock,
                        Motivation, BarUpdate (step s)]\<rparr>))
 \<and> (\<not> existsSync (fs s) [''public'', ''storage''] \<longrightarrow>
      step5 s = Return () (s\<lparr>step := step s + 1,
        log := log s @ [Header (step s) 11 ''Cleaning public/storage'', Say StorageNotFound,
                        Motivation, BarUpdate (step s)]\<rparr>))"
  by (simp add: step1_def step5_def deleteDirectoryContents_def act_defs)

theorem absent_target_is_no_error_witness:
  "\<not> existsSync fresh [''public'', ''storage''] \<and> \<not> existsSync fresh [''composer.lock'']
   \<and> deleteDirectory fresh [''public'', ''storage''] = Inr fresh
   \<and> deleteDirectoryContents fresh [''public'', ''storage''] = Inr fresh
   \<and> step1 (initial fresh []) = Return () \<lparr>fs = fresh, penv = [], step = 1,
        log = [Header 0 11 ''Cleaning composer.lock'', Say NoLock, Motivation, BarUpdate 0]\<rparr>
   \<and> step5 (initial fresh []) = Return () \<lparr>fs = fresh, penv = [], step = 1,
        log = [Header 0 11 ''Cleaning public/storage'', Say StorageNotFound, Motivation,
               BarUpdate 0]\<rparr>"
  using absent_target_is_no_error [of fresh "[''public'', ''storage'']" "initial fresh []"]
  by (simp add: initial_def fresh_def existsSync_def)

text \<open>
  Claim C9. Step 1 never changes the working directory. When \<^verbatim>\<open>composer.lock\<close> exists
  the step prints that it was deleted, and the file is still there afterwards.
\<close>

theorem composer_lock_is_kept:
  "fs (final (step1 s)) = fs s \<and>
   (existsSync (fs s) [''composer.lock''] \<longrightarrow>
      step1 s = Return () (s\<lparr>step := step s + 1,
        log := log s @ [Header (step s) 11 ''Cleaning composer.lock'', Say LockDeleted,
                        Motivation, BarUpdate (step s)]\<rparr>)
      \<and> existsSync (fs (final (step1 s))) [''composer.lock''])"
  by (simp add: step1_def act_defs)

theorem composer_lock_is_kept_witness:
  "existsSync configured [''composer.lock'']
   \<and> step1 (initial configured []) = Return () \<lparr>fs = configured, penv = [], step = 1,
        log = [Header 0 11 ''Cleaning composer.lock'', Say LockDeleted, Motivation,
               BarUpdate 0]\<rparr>
   \<and> existsSync (fs (final (step1 (initial configured [])))) [''composer.lock'']"
  using composer_lock_is_kept [of "initial configured []"]
  by (simp add: initial_def configured_def existsSync_def)

text \<open>
  Claim C10. When \<^verbatim>\<open>.env\<close> is a file with content \<open>c\<close>, the first half of step 3 spawns
  key generation if the pattern does not match \<open>c\<close>, and spawns nothing if it matches. The
  pattern matches exactly the contents in which \<^verbatim>\<open>APP_KEY=\<close> occurs somewhere, followed
  by a code unit that is not a line terminator. It has no anchor, so a commented key and a
  key with a longer name both count as a valid key.
\<close>

theorem key_generation_follows_pattern:
  "(lookup (fs s) [''.env''] = Some (File c) \<longrightarrow>
      spawned (drop (length (log s)) (log (final (step3_env W s))))
        = (if app_key_test c then [] else [key_generate_command]))
   \<and> (app_key_test c \<longleftrightarrow>
        (\<exists>pre d post. c = pre @ lit ''APP_KEY='' @ d # post \<and> \<not> is_line_terminator d))
   \<and> app_key_test (lit ''#APP_KEY=old'') \<and> app_key_test (lit ''MY_APP_KEY=x'')"
proof -
  have spawn: "spawned (drop (length (log s)) (log (final (step3_env W s))))
        = (if app_key_test c then [] else [key_generate_command])"
    if "lookup (fs s) [''.env''] = Some (File c)"
    using that
    by (simp add: step3_env_def key_generate_def key_generate_command_def runCommand_def
        existsSync_def readFileSync_def act_defs Let_def)
  have 1: "app_key_test (lit ''#APP_KEY=old'')" by code_simp
  have 2: "app_key_test (lit ''MY_APP_KEY=x'')" by code_simp
  from spawn app_key_test_iff [of c] 1 2 show ?thesis by blast
qed

theorem key_generation_follows_pattern_witness:
  "lookup configured [''.env''] = Some (File (lit ''#APP_KEY=old''))
   \<and> spawned (log (final (step3_env quiet (initial configured [])))) = []
   \<and> lookup (Dir [(''.env'', File (lit ''APP_KEY=''))]) [''.env'']
       = Some (File (lit ''APP_KEY=''))
   \<and> spawned (log (final (step3_env quiet (initial (Dir [(''.env'', File (lit ''APP_KEY=''))])
        [])))) = [key_generate_command]"
proof -
  have a: "lookup (fs (initial configured [])) [''.env''] = Some (File (lit ''#APP_KEY=old''))"
    by (simp add: initial_def configured_def)
  have b: "lookup (fs (initial (Dir [(''.env'', File (lit ''APP_KEY=''))]) [])) [''.env'']
      = Some (File (lit ''APP_KEY=''))"
    by (simp add: initial_def)
  have t: "app_key_test (lit ''#APP_KEY=old'')" by code_simp
  have f: "\<not> app_key_test (lit ''APP_KEY='')" by code_simp
  from key_generation_follows_pattern [of "initial configured []" "lit ''#APP_KEY=old''" quiet]
    a t
  have 1: "spawned (log (final (step3_env quiet (initial configured [])))) = []"
    by (simp add: initial_def)
  from key_generation_follows_pattern
    [of "initial (Dir [(''.env'', File (lit ''APP_KEY=''))]) []" "lit ''APP_KEY=''" quiet] b f
  have 2: "spawned (log (final (step3_env quiet
      (initial (Dir [(''.env'', File (lit ''APP_KEY=''))]) [])))) = [key_generate_command]"
    by (simp add: initial_def)
  from a b 1 2 show ?thesis by (simp add: initial_def)
qed

end
